theory Spec2Isabelle
  imports Complex_Main
begin

section \<open>Numbers, vectors and bodies\<close>

text \<open>
  The constraint core of the physics engine: \<^verbatim>\<open>src/constraints/Distance.js\<close> and
  \<^verbatim>\<open>src/constraints/collision/ContactManifold.js\<close>.

  JavaScript numbers are modelled as reals: arithmetic is exact, and the values
  \<^verbatim>\<open>NaN\<close>, \<^verbatim>\<open>Infinity\<close> and \<^verbatim>\<open>-Infinity\<close> have no counterpart. Where the source
  divides, the model agrees with it only for a non-zero divisor (HOL's \<open>x / 0\<close> is \<open>0\<close>).
  In a contact, the fields that the code can leave unset or fill by a division are
  optional numbers, and \<open>None\<close> stands for a value that is not a finite number.
  Integer-valued numbers that are used as counters, array indices and identifiers are
  \<open>int\<close> or \<open>nat\<close>.
\<close>

text \<open>
  Modelled from the spec: the 3-vector of the vector/matrix collaborator
  (\<^verbatim>\<open>famous-math\<close>'s \<^verbatim>\<open>Vec3\<close>, not under src/), fields \<^verbatim>\<open>x\<close>, \<^verbatim>\<open>y\<close>, \<^verbatim>\<open>z\<close>,
  and its operations as the constraints call them (ordinary 3-vector arithmetic).
  The source keeps module-level scratch registers and mutates vectors in place; the
  model passes vectors by value and writes every in-place update as a new value.
\<close>

record Vec3 =
  vx :: real
  vy :: real
  vz :: real

definition vec :: "real \<Rightarrow> real \<Rightarrow> real \<Rightarrow> Vec3" where
  "vec a b c = \<lparr>vx = a, vy = b, vz = c\<rparr>"

text \<open>\<^verbatim>\<open>Vec3.add(v1, v2, out)\<close> and \<^verbatim>\<open>v1.add(v2)\<close>.\<close>

definition vadd :: "Vec3 \<Rightarrow> Vec3 \<Rightarrow> Vec3" where
  "vadd u v = vec (vx u + vx v) (vy u + vy v) (vz u + vz v)"

text \<open>\<^verbatim>\<open>Vec3.subtract(v1, v2, out)\<close> and \<^verbatim>\<open>v1.subtract(v2)\<close>.\<close>

definition vsubtract :: "Vec3 \<Rightarrow> Vec3 \<Rightarrow> Vec3" where
  "vsubtract u v = vec (vx u - vx v) (vy u - vy v) (vz u - vz v)"

text \<open>\<^verbatim>\<open>Vec3.scale(v, s, out)\<close> and \<^verbatim>\<open>v.scale(s)\<close>.\<close>

definition vscale :: "Vec3 \<Rightarrow> real \<Rightarrow> Vec3" where
  "vscale v s = vec (vx v * s) (vy v * s) (vz v * s)"

text \<open>\<^verbatim>\<open>v.invert()\<close>: every component negated.\<close>

definition vinvert :: "Vec3 \<Rightarrow> Vec3" where
  "vinvert v = vec (- vx v) (- vy v) (- vz v)"

text \<open>\<^verbatim>\<open>Vec3.dot(v1, v2)\<close>.\<close>

definition vdot :: "Vec3 \<Rightarrow> Vec3 \<Rightarrow> real" where
  "vdot u v = vx u * vx v + vy u * vy v + vz u * vz v"

text \<open>\<^verbatim>\<open>Vec3.cross(v1, v2, out)\<close>.\<close>

definition vcross :: "Vec3 \<Rightarrow> Vec3 \<Rightarrow> Vec3" where
  "vcross u v = vec (vy u * vz v - vz u * vy v)
                    (vz u * vx v - vx u * vz v)
                    (vx u * vy v - vy u * vx v)"

text \<open>\<^verbatim>\<open>v.length()\<close>.\<close>

definition vlength :: "Vec3 \<Rightarrow> real" where
  "vlength v = sqrt (vx v * vx v + vy v * vy v + vz v * vz v)"

text \<open>\<^verbatim>\<open>v.normalize()\<close>: a zero vector is left as it is (length replaced by 1).\<close>

definition vnormalize :: "Vec3 \<Rightarrow> Vec3" where
  "vnormalize v = (let len = (if vlength v = 0 then 1 else vlength v) in vscale v (1 / len))"

text \<open>\<^verbatim>\<open>v.clear()\<close> and \<^verbatim>\<open>new Vec3()\<close>.\<close>

definition vzero :: Vec3 where
  "vzero = vec 0 0 0"

text \<open>
  Modelled from the spec: the inverse-inertia tensor of the collaborator
  (\<^verbatim>\<open>Mat33\<close>, not under src/) as three rows; \<^verbatim>\<open>m.vectorMultiply(v, out)\<close> is the
  matrix-vector product.
\<close>

record Mat33 =
  row0 :: Vec3
  row1 :: Vec3
  row2 :: Vec3

definition vectorMultiply :: "Mat33 \<Rightarrow> Vec3 \<Rightarrow> Vec3" where
  "vectorMultiply m v = vec (vdot (row0 m) v) (vdot (row1 m) v) (vdot (row2 m) v)"

text \<open>
  Modelled from the spec: the body collaborator (Particle, not under src/): the fields
  the constraints read. \<open>ID\<close> is the source's \<^verbatim>\<open>_ID\<close>; \<open>bRestitution\<close> and
  \<open>bFriction\<close> are the body's \<^verbatim>\<open>restitution\<close> and \<^verbatim>\<open>friction\<close>.
\<close>

record Body =
  ID :: int
  position :: Vec3
  velocity :: Vec3
  angularVelocity :: Vec3
  inverseMass :: real
  inverseInertia :: Mat33
  bRestitution :: real
  bFriction :: real

text \<open>
  Bodies are shared mutable objects: constraints, contacts and manifolds hold references
  to them. A reference is an address, and the bodies are read through a store.
\<close>

type_synonym bref = nat
type_synonym store = "bref \<Rightarrow> Body"

datatype error = ReferenceError | TypeError

section \<open>Distance constraint: state\<close>

text \<open>
  The fields of a \<^verbatim>\<open>Distance\<close>: \<open>dA\<close>, \<open>dB\<close> are \<^verbatim>\<open>this.a\<close>, \<^verbatim>\<open>this.b\<close>;
  \<open>dLength\<close> is \<^verbatim>\<open>this.length\<close>; \<open>dImpulse\<close>, \<open>dNormal\<close> and \<open>dVelocityBias\<close> are
  \<^verbatim>\<open>this.impulse\<close>, \<^verbatim>\<open>this.normal\<close> and \<^verbatim>\<open>this.velocityBias\<close>.
\<close>

record Distance =
  dA :: bref
  dB :: bref
  dLength :: real
  minLength :: real
  period :: real
  dampingRatio :: real
  stiffness :: real
  damping :: real
  dImpulse :: real
  distance :: real
  dNormal :: Vec3
  dVelocityBias :: real
  divisor :: real

text \<open>
  The options an instance carries before \<^verbatim>\<open>init\<close> runs: each may be unset
  (\<^verbatim>\<open>undefined\<close>, here \<open>None\<close>).
\<close>

record DistanceOptions =
  optLength :: "real option"
  optMinLength :: "real option"
  optPeriod :: "real option"
  optDampingRatio :: "real option"

section \<open>Contacts, manifolds and the table: state\<close>

record CollisionData =
  normal :: Vec3
  localContactA :: Vec3
  localContactB :: Vec3
  worldContactA :: Vec3
  worldContactB :: Vec3
  penetration :: real

text \<open>
  A contact. \<^verbatim>\<open>velocityBias\<close> is assigned by \<^verbatim>\<open>update\<close> only (neither the constructor
  nor \<^verbatim>\<open>reset\<close> nor \<^verbatim>\<open>init\<close> writes it), and \<^verbatim>\<open>update\<close> divides by \<^verbatim>\<open>dt\<close>; the
  three effective masses are reciprocals computed by \<^verbatim>\<open>init\<close>. These four fields are
  \<open>real option\<close>: \<open>None\<close> is \<^verbatim>\<open>undefined\<close>, \<^verbatim>\<open>NaN\<close> or an infinity.
\<close>

record Contact =
  bodyA :: bref
  bodyB :: bref
  data :: CollisionData
  normalImpulse :: real
  tangentImpulse1 :: real
  tangentImpulse2 :: real
  impulse :: Vec3
  angImpulseA :: Vec3
  angImpulseB :: Vec3
  tangent1 :: Vec3
  tangent2 :: Vec3
  effNormalMass :: "real option"
  effTangentialMass1 :: "real option"
  effTangentialMass2 :: "real option"
  restitution :: real
  friction :: real
  velocityBias :: "real option"

text \<open>
  A manifold: \<open>mBodyA\<close>, \<open>mBodyB\<close> are its \<^verbatim>\<open>bodyA\<close>, \<^verbatim>\<open>bodyB\<close>. The \<^verbatim>\<open>contacts\<close>
  array holds a contact or \<^verbatim>\<open>null\<close>/a hole (\<open>None\<close>) per index.
\<close>

record Manifold =
  lowID :: int
  highID :: int
  contacts :: "Contact option list"
  numContacts :: int
  mBodyA :: bref
  mBodyB :: bref
  lru :: nat

text \<open>
  The table: \<^verbatim>\<open>manifolds\<close> (a manifold or \<^verbatim>\<open>null\<close> per slot), the two-level
  \<^verbatim>\<open>collisionMatrix\<close> (a missing row is \<open>None\<close>; within a row, \<^verbatim>\<open>undefined\<close> and
  \<^verbatim>\<open>null\<close> are both \<open>None\<close>, as the source tests them with \<^verbatim>\<open>== null\<close>), and the free
  list \<^verbatim>\<open>_IDPool\<close> (the last element is the one \<^verbatim>\<open>pop\<close> returns).
\<close>

record ContactManifoldTable =
  manifolds :: "Manifold option list"
  collisionMatrix :: "int \<Rightarrow> (int \<Rightarrow> nat option) option"
  IDPool :: "nat list"

text \<open>
  What the code does to its collaborators, in the order it does it: impulses applied to
  bodies, objects requested from and handed back to the pool, and events triggered on a
  body. An event records its payload and the table as it is at the moment of the trigger.
\<close>

datatype effect =
    ApplyImpulse bref Vec3
  | ApplyAngularImpulse bref Vec3
  | FreeCollisionData CollisionData
  | FreeContact Contact
  | FreeManifold Manifold
  | RequestContact
  | RequestManifold
  | Trigger bref string Manifold ContactManifoldTable

section \<open>Distance constraint: operations\<close>

text \<open>JavaScript's \<^verbatim>\<open>v || d\<close> on a number that may be unset: \<^verbatim>\<open>undefined\<close> and \<open>0\<close> are falsy.\<close>

definition orDefault :: "real option \<Rightarrow> real \<Rightarrow> real" where
  "orDefault v d = (case v of None \<Rightarrow> d | Some r \<Rightarrow> (if r = 0 then d else r))"

definition Distance_init :: "store \<Rightarrow> DistanceOptions \<Rightarrow> Distance \<Rightarrow> Distance" where
  "Distance_init s opts d =
    (let length' = orDefault (optLength opts)
                     (vlength (vsubtract (position (s (dB d))) (position (s (dA d)))));
         minLength' = orDefault (optMinLength opts) 0;
         period' = orDefault (optPeriod opts) 0.2;
         dampingRatio' = orDefault (optDampingRatio opts) 0.5
     in d\<lparr>dLength := length', minLength := minLength', period := period',
           dampingRatio := dampingRatio',
           stiffness := 4 * pi * pi / (period' * period'),
           damping := 4 * pi * dampingRatio' / period'\<rparr>)"

text \<open>
  \<^verbatim>\<open>update\<close> tests \<^verbatim>\<open>period === 0\<close> on the free identifier \<^verbatim>\<open>period\<close>, not on
  \<^verbatim>\<open>this.period\<close>. The module declares no such variable, so the identifier resolves
  in the global scope: \<open>Undeclared\<close> when there is no such global (reading it throws a
  ReferenceError), a number, or a value of another type (never \<^verbatim>\<open>=== 0\<close>).
\<close>

datatype binding = Undeclared | NumVal real | OtherVal

definition Distance_update ::
  "binding \<Rightarrow> store \<Rightarrow> real \<Rightarrow> real \<Rightarrow> Distance \<Rightarrow> error + (Distance \<times> effect list)" where
  "Distance_update globalPeriod s time dt d =
    (let p1 = position (s (dA d));
         w1 = inverseMass (s (dA d));
         p2 = position (s (dB d));
         w2 = inverseMass (s (dB d));
         diffP = vsubtract p2 p1;
         separation = vlength diffP;
         n = vscale diffP (1 / separation);
         dist = separation - dLength d;
         invEffectiveMass = w1 + w2;
         effectiveMass = 1 / invEffectiveMass
     in case globalPeriod of
          Undeclared \<Rightarrow> Inl ReferenceError
        | _ \<Rightarrow>
          (let (gamma, beta) =
                 (if globalPeriod = NumVal 0 then (0, 1)
                  else (let c = damping d * effectiveMass;
                            k = stiffness d * effectiveMass
                        in (1 / (dt * (c + dt * k)), dt * k / (c + dt * k))));
               baumgarte = beta * dist / dt;
               divisor' = gamma + invEffectiveMass;
               lambda = dImpulse d;
               imp = vscale n lambda
           in Inr (d\<lparr>dNormal := n, distance := dist, dVelocityBias := baumgarte,
                     divisor := divisor', dImpulse := 0\<rparr>,
                   [ApplyImpulse (dB d) imp, ApplyImpulse (dA d) (vinvert imp)])))"

definition Distance_resolve :: "store \<Rightarrow> Distance \<Rightarrow> Distance \<times> effect list" where
  "Distance_resolve s d =
    (if \<bar>distance d\<bar> < minLength d then (d, [])
     else (let v1 = velocity (s (dA d));
               v2 = velocity (s (dB d));
               n = dNormal d;
               diffV = vsubtract v2 v1;
               lambda = - (vdot n diffV + dVelocityBias d) / divisor d;
               imp = vscale n lambda
           in (d\<lparr>dImpulse := dImpulse d + lambda\<rparr>,
               [ApplyImpulse (dB d) imp, ApplyImpulse (dA d) (vinvert imp)])))"

section \<open>Contact: operations\<close>

definition clamp :: "real \<Rightarrow> real \<Rightarrow> real \<Rightarrow> real" where
  "clamp v lower upper = (if v < lower then lower else if v > upper then upper else v)"

text \<open>
  One of the three effective masses of \<^verbatim>\<open>init\<close>, along the axis \<open>ax\<close>: the reciprocal of
  a sum that can be zero (two bodies of infinite mass and inertia), and then an infinity.
\<close>

definition effMass :: "Body \<Rightarrow> Body \<Rightarrow> Vec3 \<Rightarrow> Vec3 \<Rightarrow> Vec3 \<Rightarrow> real option" where
  "effMass A B rBodyA rBodyB ax =
    (let invEffectiveMass = inverseMass A + inverseMass B;
         r1 = vcross rBodyA ax;
         r2 = vcross rBodyB ax;
         denominator = invEffectiveMass
             + vdot r1 (vectorMultiply (inverseInertia A) r1)
             + vdot r2 (vectorMultiply (inverseInertia B) r2)
     in if denominator = 0 then None else Some (1 / denominator))"

definition Contact_init :: "store \<Rightarrow> Contact \<Rightarrow> Contact" where
  "Contact_init s c =
    (let n = normal (data c);
         t1 = vnormalize (if vx n \<ge> 0.57735 then vec (vy n) (- vx n) 0
                          else vec 0 (vz n) (- vy n));
         t2 = vcross n t1;
         A = s (bodyA c);
         B = s (bodyB c);
         rBodyA = localContactA (data c);
         rBodyB = localContactB (data c)
     in c\<lparr>tangent1 := t1, tangent2 := t2,
           effNormalMass := effMass A B rBodyA rBodyB n,
           effTangentialMass1 := effMass A B rBodyA rBodyB t1,
           effTangentialMass2 := effMass A B rBodyA rBodyB t2,
           restitution := min (bRestitution A) (bRestitution B),
           friction := bFriction A * bFriction B\<rparr>)"

text \<open>
  \<^verbatim>\<open>reset\<close> runs on the instance \<open>c\<close> the pool hands out: a new one, whose
  \<^verbatim>\<open>velocityBias\<close> is unset, or a recycled one, which carries the state of its earlier
  use. It overwrites every field but \<^verbatim>\<open>velocityBias\<close>, which stays what it was.
\<close>

definition Contact_reset :: "store \<Rightarrow> Contact \<Rightarrow> bref \<Rightarrow> bref \<Rightarrow> CollisionData \<Rightarrow> Contact" where
  "Contact_reset s c a b collisionData =
    Contact_init s (c\<lparr>bodyA := a, bodyB := b, data := collisionData,
                      normalImpulse := 0, tangentImpulse1 := 0, tangentImpulse2 := 0,
                      impulse := vzero, angImpulseA := vzero, angImpulseB := vzero\<rparr>)"

text \<open>The relative velocity of the contact points, \<^verbatim>\<open>vb2 - vb1\<close>.\<close>

definition relativeVelocity :: "store \<Rightarrow> Contact \<Rightarrow> Vec3" where
  "relativeVelocity s c =
    (let A = s (bodyA c);
         B = s (bodyB c);
         vb1 = vadd (velocity A) (vcross (angularVelocity A) (localContactA (data c)));
         vb2 = vadd (velocity B) (vcross (angularVelocity B) (localContactB (data c)))
     in vsubtract vb2 vb1)"

text \<open>The relative velocity along the normal, \<^verbatim>\<open>contactSpeed\<close> in \<^verbatim>\<open>update\<close>.\<close>

definition contactSpeed :: "store \<Rightarrow> Contact \<Rightarrow> real" where
  "contactSpeed s c = vdot (relativeVelocity s c) (normal (data c))"

text \<open>
  \<^verbatim>\<open>update\<close>: \<^verbatim>\<open>this.impulse.scale(0.25)\<close> scales the stored vector in place and
  \<^verbatim>\<open>impulse.invert()\<close> negates that same vector, before all three are cleared. With
  \<^verbatim>\<open>dt\<close> zero the division leaves \<^verbatim>\<open>velocityBias\<close> an infinity or \<^verbatim>\<open>NaN\<close>.
\<close>

definition Contact_update :: "store \<Rightarrow> real \<Rightarrow> Contact \<Rightarrow> Contact \<times> effect list" where
  "Contact_update s dt c =
    (let speed = contactSpeed s c;
         beta = 0.15;
         slop = 1.5;
         velocityTolerance = 20.0;
         restitution' = (if \<bar>speed\<bar> < velocityTolerance then 0.0 else restitution c);
         velocityBias' = (if dt = 0 then None
                          else Some (- beta * max (penetration (data c) - slop) 0.0 / dt
                                     + restitution' * speed));
         imp = vscale (impulse c) 0.25;
         angA = vscale (angImpulseA c) 0.25;
         angB = vscale (angImpulseB c) 0.25
     in (c\<lparr>velocityBias := velocityBias',
            normalImpulse := 0, tangentImpulse1 := 0, tangentImpulse2 := 0,
            impulse := vzero, angImpulseA := vzero, angImpulseB := vzero\<rparr>,
         [ApplyImpulse (bodyB c) imp,
          ApplyAngularImpulse (bodyB c) angB,
          ApplyImpulse (bodyA c) (vinvert imp),
          ApplyAngularImpulse (bodyA c) angA]))"

text \<open>
  \<^verbatim>\<open>resolve\<close>: the composed impulse lives in one register, which is inverted in place
  after it was applied to bodyB; so it is the inverted vector that is applied to bodyA
  and added to \<^verbatim>\<open>this.impulse\<close>.

  The result is \<open>None\<close> when \<^verbatim>\<open>velocityBias\<close> or an effective mass is not a finite number:
  the code then goes on computing with \<^verbatim>\<open>undefined\<close>, \<^verbatim>\<open>NaN\<close> or an infinity (with an
  unset \<^verbatim>\<open>velocityBias\<close> it stores \<^verbatim>\<open>NaN\<close> as the normal impulse, stores the tangential
  impulses unclamped, since both comparisons of \<^verbatim>\<open>clamp\<close> with \<^verbatim>\<open>NaN\<close> are false, and
  applies \<^verbatim>\<open>NaN\<close> impulses to both bodies), and the model has no values for what it
  stores and applies.
\<close>

definition Contact_resolve :: "store \<Rightarrow> Contact \<Rightarrow> (Contact \<times> effect list) option" where
  "Contact_resolve s c =
    (case (velocityBias c, effNormalMass c, effTangentialMass1 c, effTangentialMass2 c) of
       (Some bias, Some effN, Some effT1, Some effT2) \<Rightarrow>
         (let rBodyA = localContactA (data c);
              rBodyB = localContactB (data c);
              n = normal (data c);
              t1 = tangent1 c;
              t2 = tangent2 c;
              rv = relativeVelocity s c;
              normalLambda0 = - (vdot rv n + bias) * effN;
              newNormalImpulse = max (normalImpulse c + normalLambda0) 0;
              normalLambda = newNormalImpulse - normalImpulse c;
              maxFriction = friction c * newNormalImpulse;
              tangentLambda1' = - vdot rv t1 * effT1;
              newTangentImpulse1 = clamp (tangentImpulse1 c + tangentLambda1') (- maxFriction) maxFriction;
              tangentLambda1 = newTangentImpulse1 - tangentImpulse1 c;
              tangentLambda2' = - vdot rv t2 * effT2;
              newTangentImpulse2 = clamp (tangentImpulse2 c + tangentLambda2') (- maxFriction) maxFriction;
              tangentLambda2 = newTangentImpulse2 - tangentImpulse2 c;
              imp = vadd (vadd (vscale n normalLambda) (vscale t1 tangentLambda1))
                         (vscale t2 tangentLambda2);
              angB = vcross rBodyB imp;
              angA = vinvert (vcross rBodyA imp);
              impInv = vinvert imp
          in Some (c\<lparr>normalImpulse := newNormalImpulse,
                      tangentImpulse1 := newTangentImpulse1,
                      tangentImpulse2 := newTangentImpulse2,
                      impulse := vadd (impulse c) impInv,
                      angImpulseA := vadd (angImpulseA c) angA,
                      angImpulseB := vadd (angImpulseB c) angB\<rparr>,
                   [ApplyImpulse (bodyB c) imp,
                    ApplyAngularImpulse (bodyB c) angB,
                    ApplyImpulse (bodyA c) impInv,
                    ApplyAngularImpulse (bodyA c) angA]))
     | _ \<Rightarrow> None)"

text \<open>
  A sequence of \<^verbatim>\<open>resolve\<close> calls on one contact. Between two calls the bodies may
  have been changed by anything (the impulses of this and of other constraints), so each
  call reads a store of its own. The sequence is \<open>None\<close> as soon as one call is.
\<close>

fun Contact_resolves :: "store list \<Rightarrow> Contact \<Rightarrow> Contact option" where
  "Contact_resolves [] c = Some c"
| "Contact_resolves (s # ss) c =
     (case Contact_resolve s c of
        None \<Rightarrow> None
      | Some r \<Rightarrow> Contact_resolves ss (fst r))"

text \<open>The three effective masses are finite numbers.\<close>

definition finiteMasses :: "Contact \<Rightarrow> bool" where
  "finiteMasses c =
    (effNormalMass c \<noteq> None \<and> effTangentialMass1 c \<noteq> None \<and> effTangentialMass2 c \<noteq> None)"

section \<open>Manifold: operations\<close>

text \<open>
  JavaScript arrays: a read beyond the end is \<^verbatim>\<open>undefined\<close>; a write beyond the end
  extends the array, leaving holes.
\<close>

definition jsGet :: "'a option list \<Rightarrow> nat \<Rightarrow> 'a option" where
  "jsGet xs i = (if i < length xs then xs ! i else None)"

definition jsPut :: "'a option list \<Rightarrow> nat \<Rightarrow> 'a option \<Rightarrow> 'a option list" where
  "jsPut xs i v =
    (if i < length xs then xs[i := v] else xs @ replicate (i - length xs) None @ [v])"

definition THRESHOLD :: real where
  "THRESHOLD = 10"

definition Manifold_reset :: "int \<Rightarrow> int \<Rightarrow> bref \<Rightarrow> bref \<Rightarrow> Manifold" where
  "Manifold_reset lo hi a b =
    \<lparr>lowID = lo, highID = hi, contacts = [], numContacts = 0, mBodyA = a, mBodyB = b, lru = 0\<rparr>"

text \<open>
  \<^verbatim>\<open>removeContact\<close>. The source also sets the freed instance's \<^verbatim>\<open>data\<close> to \<^verbatim>\<open>null\<close>;
  that instance is out of the manifold from here on, and \<^verbatim>\<open>reset\<close> writes \<^verbatim>\<open>data\<close>
  anew before any later use.
\<close>

definition removeContact :: "Manifold \<Rightarrow> Contact \<Rightarrow> nat \<Rightarrow> Manifold \<times> effect list" where
  "removeContact m contact index =
    (m\<lparr>contacts := jsPut (contacts m) index None, numContacts := numContacts m - 1\<rparr>,
     [FreeCollisionData (data contact), FreeContact contact])"

text \<open>
  \<^verbatim>\<open>addContact\<close>; \<open>pooled\<close> is the instance \<^verbatim>\<open>OMRequestContact()\<close> returns.
\<close>

definition addContact ::
  "store \<Rightarrow> Contact \<Rightarrow> Manifold \<Rightarrow> bref \<Rightarrow> bref \<Rightarrow> CollisionData \<Rightarrow> Manifold \<times> effect list" where
  "addContact s pooled m a b collisionData =
    (let index = lru m;
         (m1, e1) = (case jsGet (contacts m) index of
                       Some old \<Rightarrow> removeContact m old index
                     | None \<Rightarrow> (m, []))
     in (m1\<lparr>contacts := jsPut (contacts m1) index (Some (Contact_reset s pooled a b collisionData)),
             lru := (lru m + 1) mod 4,
             numContacts := numContacts m1 + 1\<rparr>,
         e1 @ [RequestContact]))"

definition nearDuplicate :: "Vec3 \<Rightarrow> Vec3 \<Rightarrow> Contact \<Rightarrow> bool" where
  "nearDuplicate wA wB contact =
    (let distA = vlength (vsubtract (worldContactA (data contact)) wA);
         distB = vlength (vsubtract (worldContactB (data contact)) wB)
     in distA < THRESHOLD \<or> distB < THRESHOLD)"

text \<open>The loop of \<^verbatim>\<open>contains\<close> from index \<open>i\<close> on: the first live near-duplicate.\<close>

fun findNear :: "Vec3 \<Rightarrow> Vec3 \<Rightarrow> nat \<Rightarrow> Contact option list \<Rightarrow> (nat \<times> Contact) option" where
  "findNear wA wB i [] = None"
| "findNear wA wB i (None # cs) = findNear wA wB (Suc i) cs"
| "findNear wA wB i (Some contact # cs) =
    (if nearDuplicate wA wB contact then Some (i, contact) else findNear wA wB (Suc i) cs)"

definition contains_m :: "Manifold \<Rightarrow> CollisionData \<Rightarrow> Manifold \<times> effect list \<times> bool" where
  "contains_m m collisionData =
    (case findNear (worldContactA collisionData) (worldContactB collisionData) 0 (contacts m) of
       Some (i, contact) \<Rightarrow> (let (m1, e1) = removeContact m contact i in (m1, e1, True))
     | None \<Rightarrow> (m, [], False))"

text \<open>The test of \<^verbatim>\<open>Manifold.update\<close> that sends a contact away.\<close>

definition stale :: "Vec3 \<Rightarrow> Vec3 \<Rightarrow> Contact \<Rightarrow> bool" where
  "stale posA posB contact =
    (let d = data contact;
         n = normal d;
         wA = vadd posA (localContactA d);
         wB = vadd posB (localContactB d);
         notPenetrating = (vdot (vsubtract wB wA) n > 0);
         driftA = vsubtract (worldContactA d) wA;
         driftB = vsubtract (worldContactB d) wB
     in vlength driftA \<ge> THRESHOLD \<or> vlength driftB \<ge> THRESHOLD \<or> notPenetrating)"

text \<open>The loop of \<^verbatim>\<open>Manifold.update\<close> over the indices still to visit.\<close>

fun Manifold_update_loop :: "Vec3 \<Rightarrow> Vec3 \<Rightarrow> nat list \<Rightarrow> Manifold \<Rightarrow> Manifold \<times> effect list" where
  "Manifold_update_loop posA posB [] m = (m, [])"
| "Manifold_update_loop posA posB (i # is) m =
    (case jsGet (contacts m) i of
       None \<Rightarrow> Manifold_update_loop posA posB is m
     | Some contact \<Rightarrow>
         (if stale posA posB contact
          then (let r1 = removeContact m contact i;
                    r2 = Manifold_update_loop posA posB is (fst r1)
                in (fst r2, snd r1 @ snd r2))
          else Manifold_update_loop posA posB is m))"

definition Manifold_update :: "store \<Rightarrow> real \<Rightarrow> Manifold \<Rightarrow> Manifold \<times> effect list \<times> bool" where
  "Manifold_update s dt m =
    (let posA = position (s (mBodyA m));
         posB = position (s (mBodyB m));
         r = Manifold_update_loop posA posB [0 ..< length (contacts m)] m
     in (fst r, snd r, numContacts (fst r) \<noteq> 0))"

text \<open>The operations that change a manifold's contacts, and a manifold's life as a run of them.\<close>

datatype manifoldOp =
    AddContact store Contact bref bref CollisionData
  | Contains CollisionData
  | Update store real

fun Manifold_step :: "manifoldOp \<Rightarrow> Manifold \<Rightarrow> Manifold" where
  "Manifold_step (AddContact s pooled a b d) m = fst (addContact s pooled m a b d)"
| "Manifold_step (Contains d) m = fst (contains_m m d)"
| "Manifold_step (Update s dt) m = fst (Manifold_update s dt m)"

fun Manifold_run :: "manifoldOp list \<Rightarrow> Manifold \<Rightarrow> Manifold" where
  "Manifold_run [] m = m"
| "Manifold_run (op # ops) m = Manifold_run ops (Manifold_step op m)"

text \<open>The contacts a run of operations adds to a manifold, in the order it adds them.\<close>

fun added :: "manifoldOp list \<Rightarrow> Contact list" where
  "added [] = []"
| "added (AddContact s p a b d # ops) = Contact_reset s p a b d # added ops"
| "added (Contains d # ops) = added ops"
| "added (Update s dt # ops) = added ops"

text \<open>The live contacts of a manifold: the slots that are not \<^verbatim>\<open>null\<close>.\<close>

definition live :: "Manifold \<Rightarrow> Contact list" where
  "live m = List.map_filter id (contacts m)"

text \<open>One slot after the sweep of \<^verbatim>\<open>Manifold.update\<close>.\<close>

definition swept :: "Vec3 \<Rightarrow> Vec3 \<Rightarrow> Contact option \<Rightarrow> Contact option" where
  "swept posA posB x = (case x of None \<Rightarrow> None
                        | Some c \<Rightarrow> if stale posA posB c then None else Some c)"

text \<open>
  What holds of every manifold the code builds: the cursor stays below 4, the array has at
  most 4 slots, and \<^verbatim>\<open>numContacts\<close> counts the live contacts.
\<close>

definition manifoldInv :: "Manifold \<Rightarrow> bool" where
  "manifoldInv m =
    (lru m < 4 \<and> length (contacts m) \<le> 4 \<and> numContacts m = int (length (live m)))"

section \<open>Contact manifold table: operations\<close>

definition addManifold ::
  "ContactManifoldTable \<Rightarrow> int \<Rightarrow> int \<Rightarrow> bref \<Rightarrow> bref \<Rightarrow> ContactManifoldTable \<times> Manifold \<times> nat" where
  "addManifold t lo hi a b =
    (let row = (case collisionMatrix t lo of None \<Rightarrow> Map.empty | Some r \<Rightarrow> r);
         index = (if IDPool t \<noteq> [] then last (IDPool t) else length (manifolds t));
         pool' = (if IDPool t \<noteq> [] then butlast (IDPool t) else IDPool t);
         manifold = Manifold_reset lo hi a b
     in (t\<lparr>manifolds := jsPut (manifolds t) index (Some manifold),
            collisionMatrix := (collisionMatrix t)(lo := Some (row(hi := Some index))),
            IDPool := pool'\<rparr>,
         manifold, index))"

text \<open>
  \<^verbatim>\<open>removeManifold\<close>: writing into a row the matrix does not have throws a TypeError.
\<close>

definition removeManifold ::
  "ContactManifoldTable \<Rightarrow> Manifold \<Rightarrow> nat \<Rightarrow> error + (ContactManifoldTable \<times> effect list)" where
  "removeManifold t manifold index =
    (case collisionMatrix t (lowID manifold) of
       None \<Rightarrow> Inl TypeError
     | Some row \<Rightarrow>
         Inr (t\<lparr>manifolds := jsPut (manifolds t) index None,
                collisionMatrix := (collisionMatrix t)(lowID manifold := Some (row(highID manifold := None))),
                IDPool := IDPool t @ [index]\<rparr>,
              [FreeManifold manifold]))"

text \<open>
  One turn of the loop of \<^verbatim>\<open>ContactManifoldTable.update\<close> on the live manifold of slot
  \<open>i\<close>: the manifold is updated in place; when it does not persist it is removed, and then
  the two events are triggered.
\<close>

definition Table_update_slot ::
  "store \<Rightarrow> real \<Rightarrow> nat \<Rightarrow> Manifold \<Rightarrow> ContactManifoldTable \<Rightarrow>
   error + (ContactManifoldTable \<times> effect list)" where
  "Table_update_slot s dt i manifold t =
    (let r = Manifold_update s dt manifold;
         m' = fst r;
         persists = snd (snd r);
         t1 = t\<lparr>manifolds := jsPut (manifolds t) i (Some m')\<rparr>
     in if \<not> persists
        then (case removeManifold t1 m' i of
                Inl err \<Rightarrow> Inl err
              | Inr (t2, e2) \<Rightarrow>
                  Inr (t2, fst (snd r) @ e2 @
                           [Trigger (mBodyA m') ''collision:end'' m' t2,
                            Trigger (mBodyB m') ''collision:end'' m' t2]))
        else Inr (t1, fst (snd r)))"

fun Table_update_loop ::
  "store \<Rightarrow> real \<Rightarrow> nat list \<Rightarrow> ContactManifoldTable \<Rightarrow>
   error + (ContactManifoldTable \<times> effect list)" where
  "Table_update_loop s dt [] t = Inr (t, [])"
| "Table_update_loop s dt (i # is) t =
    (case jsGet (manifolds t) i of
       None \<Rightarrow> Table_update_loop s dt is t
     | Some manifold \<Rightarrow>
         (case Table_update_slot s dt i manifold t of
            Inl err \<Rightarrow> Inl err
          | Inr (t1, e1) \<Rightarrow>
              (case Table_update_loop s dt is t1 of
                 Inl err \<Rightarrow> Inl err
               | Inr (t2, e2) \<Rightarrow> Inr (t2, e1 @ e2))))"

definition Table_update ::
  "store \<Rightarrow> real \<Rightarrow> ContactManifoldTable \<Rightarrow> error + (ContactManifoldTable \<times> effect list)" where
  "Table_update s dt t = Table_update_loop s dt [0 ..< length (manifolds t)] t"

text \<open>The canonical key of a pair of bodies, as \<^verbatim>\<open>registerContact\<close> computes it.\<close>

definition pairKey :: "store \<Rightarrow> bref \<Rightarrow> bref \<Rightarrow> int \<times> int" where
  "pairKey s a b =
    (if ID (s a) < ID (s b) then (ID (s a), ID (s b)) else (ID (s b), ID (s a)))"

text \<open>The matrix lookup of \<^verbatim>\<open>registerContact\<close>: the slot of a pair, if it has one.\<close>

definition lookupSlot :: "ContactManifoldTable \<Rightarrow> int \<times> int \<Rightarrow> nat option" where
  "lookupSlot t k = (case collisionMatrix t (fst k) of None \<Rightarrow> None | Some row \<Rightarrow> row (snd k))"

text \<open>
  \<^verbatim>\<open>registerContact\<close>; \<open>pooled\<close> is the instance \<^verbatim>\<open>OMRequestContact()\<close> returns.
  A matrix entry whose slot holds no manifold makes \<^verbatim>\<open>manifold.contains\<close> throw.
\<close>

definition registerContact ::
  "store \<Rightarrow> Contact \<Rightarrow> ContactManifoldTable \<Rightarrow> bref \<Rightarrow> bref \<Rightarrow> CollisionData \<Rightarrow>
   error + (ContactManifoldTable \<times> effect list)" where
  "registerContact s pooled t a b collisionData =
    (let k = pairKey s a b in
     case lookupSlot t k of
       None \<Rightarrow>
         (let r = addManifold t (fst k) (snd k) a b;
              t1 = fst r;
              index = snd (snd r);
              r2 = addContact s pooled (fst (snd r)) a b collisionData;
              m1 = fst r2;
              t2 = t1\<lparr>manifolds := jsPut (manifolds t1) index (Some m1)\<rparr>
          in Inr (t2, [RequestManifold] @ snd r2 @
                      [Trigger a ''collision:start'' m1 t2,
                       Trigger b ''collision:start'' m1 t2]))
     | Some index \<Rightarrow>
         (case jsGet (manifolds t) index of
            None \<Rightarrow> Inl TypeError
          | Some manifold \<Rightarrow>
              (let r1 = contains_m manifold collisionData;
                   r2 = addContact s pooled (fst r1) a b collisionData
               in Inr (t\<lparr>manifolds := jsPut (manifolds t) index (Some (fst r2))\<rparr>,
                       fst (snd r1) @ snd r2))))"

section \<open>Observations on effects and states\<close>

text \<open>The linear and the angular impulses a list of effects applies to the body \<open>r\<close>, in order.\<close>

fun linearTo :: "bref \<Rightarrow> effect list \<Rightarrow> Vec3 list" where
  "linearTo r [] = []"
| "linearTo r (ApplyImpulse r' v # es) = (if r' = r then v # linearTo r es else linearTo r es)"
| "linearTo r (e # es) = linearTo r es"

fun angularTo :: "bref \<Rightarrow> effect list \<Rightarrow> Vec3 list" where
  "angularTo r [] = []"
| "angularTo r (ApplyAngularImpulse r' v # es) = (if r' = r then v # angularTo r es else angularTo r es)"
| "angularTo r (e # es) = angularTo r es"

text \<open>The friction cone (a box in the two tangent directions) on the stored accumulators.\<close>

definition frictionCone :: "Contact \<Rightarrow> bool" where
  "frictionCone c =
    (\<bar>tangentImpulse1 c\<bar> \<le> friction c * normalImpulse c \<and>
     \<bar>tangentImpulse2 c\<bar> \<le> friction c * normalImpulse c)"

text \<open>Effects that neither take a manifold from the pool nor trigger an event.\<close>

fun quiet :: "effect \<Rightarrow> bool" where
  "quiet (Trigger r name m ts) = False"
| "quiet RequestManifold = False"
| "quiet e = True"

text \<open>
  An event is a well-placed \<^verbatim>\<open>collision:end\<close> after the effects \<open>before\<close> when its payload
  has been handed back to the pool before it, and the table, as it is when the event is
  triggered, has no matrix entry for the payload's pair any more and holds \<^verbatim>\<open>null\<close> in
  the slot pushed last on the free list.
\<close>

fun endEventOk :: "effect list \<Rightarrow> effect \<Rightarrow> bool" where
  "endEventOk before (Trigger r name m ts) =
     (name = ''collision:end'' \<and> FreeManifold m \<in> set before \<and>
      lookupSlot ts (lowID m, highID m) = None \<and>
      IDPool ts \<noteq> [] \<and> jsGet (manifolds ts) (last (IDPool ts)) = None)"
| "endEventOk before e = True"

fun endEventsOk :: "effect list \<Rightarrow> effect list \<Rightarrow> bool" where
  "endEventsOk before [] = True"
| "endEventsOk before (e # es) = (endEventOk before e \<and> endEventsOk (before @ [e]) es)"

text \<open>Every live manifold of the table has a row of the matrix for its low identifier.\<close>

definition rowsPresent :: "ContactManifoldTable \<Rightarrow> bool" where
  "rowsPresent t =
    list_all (\<lambda>x. case x of None \<Rightarrow> True | Some m \<Rightarrow> collisionMatrix t (lowID m) \<noteq> None)
      (manifolds t)"

section \<open>Concrete bodies, contacts and constraints\<close>

definition unitInertia :: Mat33 where
  "unitInertia = \<lparr>row0 = vec 1 0 0, row1 = vec 0 1 0, row2 = vec 0 0 1\<rparr>"

text \<open>Two unit-mass bodies: \<open>exBodyA\<close> at rest at the origin, \<open>exBodyB\<close> moving down onto it.\<close>

definition exBodyA :: Body where
  "exBodyA = \<lparr>ID = 1, position = vec 0 0 0, velocity = vec 0 0 0, angularVelocity = vec 0 0 0,
              inverseMass = 1, inverseInertia = unitInertia, bRestitution = 0, bFriction = 1\<rparr>"

definition exBodyB :: Body where
  "exBodyB = \<lparr>ID = 2, position = vec 1 0 (-1), velocity = vec 0 0 (-1), angularVelocity = vec 0 0 0,
              inverseMass = 1, inverseInertia = unitInertia, bRestitution = 0, bFriction = 1\<rparr>"

text \<open>The store: reference 0 is \<open>exBodyA\<close>, every other reference is \<open>exBodyB\<close>.\<close>

definition exStore :: store where
  "exStore r = (if r = 0 then exBodyA else exBodyB)"

text \<open>The same two bodies, bodyA with the friction coefficient \<open>-1\<close>.\<close>

definition exStoreNeg :: store where
  "exStoreNeg r = (if r = 0 then exBodyA\<lparr>bFriction := -1\<rparr> else exBodyB)"

text \<open>A contact point at \<open>(1, 0, 0)\<close> on bodyA and at the centre of bodyB, normal along z.\<close>

definition exData :: CollisionData where
  "exData = \<lparr>normal = vec 0 0 1, localContactA = vec 1 0 0, localContactB = vec 0 0 0,
             worldContactA = vec 1 0 0, worldContactB = vec 1 0 (-1), penetration = 1\<rparr>"

text \<open>
  A new instance as the pool hands it out (\<^verbatim>\<open>new Contact()\<close>): no effective masses and
  no \<^verbatim>\<open>velocityBias\<close> yet.
\<close>

definition exPooled :: Contact where
  "exPooled = \<lparr>bodyA = 0, bodyB = 0, data = exData,
     normalImpulse = 0, tangentImpulse1 = 0, tangentImpulse2 = 0,
     impulse = vzero, angImpulseA = vzero, angImpulseB = vzero,
     tangent1 = vzero, tangent2 = vzero,
     effNormalMass = None, effTangentialMass1 = None, effTangentialMass2 = None,
     restitution = 0, friction = 0, velocityBias = None\<rparr>"

text \<open>
  The contact \<^verbatim>\<open>reset(bodyA, bodyB, exData)\<close> makes of the new instance, written out,
  and the contact \<^verbatim>\<open>update(1)\<close> makes of that one.
\<close>

definition exContact :: Contact where
  "exContact = \<lparr>bodyA = 0, bodyB = 1, data = exData,
     normalImpulse = 0, tangentImpulse1 = 0, tangentImpulse2 = 0,
     impulse = vzero, angImpulseA = vzero, angImpulseB = vzero,
     tangent1 = vec 0 1 0, tangent2 = vec (-1) 0 0,
     effNormalMass = Some (1 / 3), effTangentialMass1 = Some (1 / 3),
     effTangentialMass2 = Some (1 / 2),
     restitution = 0, friction = 1, velocityBias = None\<rparr>"

definition exPrepared :: Contact where
  "exPrepared = exContact\<lparr>velocityBias := Some 0\<rparr>"

text \<open>
  The contact one \<^verbatim>\<open>resolve\<close> makes of that one while bodyB moves down onto bodyA. Handed
  back to the pool, it is a recycled instance, with the velocity bias of this use.
\<close>

definition exResolved :: Contact where
  "exResolved = exPrepared\<lparr>normalImpulse := 1 / 3, impulse := vec 0 0 (- (1 / 3)),
                            angImpulseA := vec 0 (1 / 3) 0\<rparr>"

text \<open>A distance constraint between the two bodies, before \<^verbatim>\<open>init\<close>, and no options.\<close>

definition exDistanceRaw :: Distance where
  "exDistanceRaw = \<lparr>dA = 0, dB = 1, dLength = 0, minLength = 0, period = 0, dampingRatio = 0,
     stiffness = 0, damping = 0, dImpulse = 0, distance = 0, dNormal = vzero,
     dVelocityBias = 0, divisor = 0\<rparr>"

definition noOptions :: DistanceOptions where
  "noOptions = \<lparr>optLength = None, optMinLength = None, optPeriod = None, optDampingRatio = None\<rparr>"

text \<open>A constraint in its slack zone: distance violation \<open>1/2\<close>, minimum length \<open>1\<close>.\<close>

definition exDistanceSlack :: Distance where
  "exDistanceSlack = exDistanceRaw\<lparr>dLength := 1, minLength := 1, period := 0.2,
     dampingRatio := 0.5, distance := 0.5, dNormal := vec 1 0 0, divisor := 2\<rparr>"

text \<open>
  The contact \<^verbatim>\<open>reset\<close> and \<^verbatim>\<open>update(1)\<close> make when bodyA has the friction
  coefficient \<open>-1\<close>.
\<close>

definition exPreparedNeg :: Contact where
  "exPreparedNeg = exPrepared\<lparr>friction := -1\<rparr>"

text \<open>
  The contact after earlier passes have accumulated a normal and a tangential impulse,
  and a store in which bodyB moves away from bodyA.
\<close>

definition exContactLoaded :: Contact where
  "exContactLoaded = exPrepared\<lparr>normalImpulse := 1 / 3, tangentImpulse1 := 1 / 4\<rparr>"

definition exStoreApart :: store where
  "exStoreApart r = (if r = 0 then exBodyA else exBodyB\<lparr>velocity := vec 0 0 2\<rparr>)"

text \<open>A store in which bodyB approaches bodyA at a speed above the velocity tolerance.\<close>

definition exStoreFast :: store where
  "exStoreFast r = (if r = 0 then exBodyA else exBodyB\<lparr>velocity := vec 0 0 (- 30)\<rparr>)"

text \<open>A constraint stretched by \<open>1/2\<close> beyond its rest length, with no slack zone.\<close>

definition exDistanceTaut :: Distance where
  "exDistanceTaut = exDistanceRaw\<lparr>dLength := 1, minLength := 0, period := 0.2,
     dampingRatio := 0.5, distance := 0.5, dNormal := vec 1 0 0, divisor := 2\<rparr>"

text \<open>
  Five collision data records, told apart by their penetration depth, and the contacts
  \<^verbatim>\<open>reset\<close> makes of them.
\<close>

definition exDataN :: "real \<Rightarrow> CollisionData" where
  "exDataN k = exData\<lparr>penetration := k\<rparr>"

definition exContactN :: "real \<Rightarrow> Contact" where
  "exContactN k = Contact_reset exStore exPooled 0 1 (exDataN k)"

definition exAdd :: "real \<Rightarrow> manifoldOp" where
  "exAdd k = AddContact exStore exPooled 0 1 (exDataN k)"

definition exManifold4 :: Manifold where
  "exManifold4 = Manifold_run [exAdd 1, exAdd 2, exAdd 3, exAdd 4] (Manifold_reset 1 2 0 1)"

text \<open>
  A manifold holding one contact, and a store in which bodyA has moved by 11 along y
  since the contact was made.
\<close>

definition exManifold1 :: Manifold where
  "exManifold1 = Manifold_run [exAdd 1] (Manifold_reset 1 2 0 1)"

definition exStoreMoved :: store where
  "exStoreMoved r = (if r = 0 then exBodyA\<lparr>position := vec 0 11 0\<rparr> else exBodyB)"

text \<open>The empty table, and the table with the manifold \<open>exManifold1\<close> of the pair in slot 0.\<close>

definition emptyTable :: ContactManifoldTable where
  "emptyTable = \<lparr>manifolds = [], collisionMatrix = (\<lambda>lo. None), IDPool = []\<rparr>"

definition exTable :: ContactManifoldTable where
  "exTable = \<lparr>manifolds = [Some exManifold1],
              collisionMatrix = (\<lambda>lo. None)(1 := Some ((\<lambda>hi. None)(2 := Some 0))),
              IDPool = []\<rparr>"

section \<open>Basic facts\<close>

lemmas vec_defs = vec_def vadd_def vsubtract_def vscale_def vinvert_def vdot_def vcross_def
  vlength_def vnormalize_def vzero_def vectorMultiply_def

lemmas ex_defs = unitInertia_def exBodyA_def exBodyB_def exStore_def exStoreNeg_def exData_def
  exPooled_def exStoreApart_def

section \<open>Distance constraint\<close>

text \<open>
  \<^verbatim>\<open>init\<close> never leaves the period at zero: an option of \<open>0\<close> is falsy and gives way to
  the default \<open>0.2\<close>.
\<close>

lemma Distance_init_period: "period (Distance_init s opts d) \<noteq> 0"
  by (simp add: Distance_init_def orDefault_def Let_def split: option.splits)

text \<open>
  C7. \<^verbatim>\<open>Distance.resolve\<close> does nothing in the slack zone: when the cached distance
  violation is smaller in absolute value than \<^verbatim>\<open>minLength\<close>, no impulse is applied to
  either body and the constraint, its accumulated impulse included, is left as it was.
\<close>

theorem Distance_resolve_slack_noop:
  assumes "\<bar>distance d\<bar> < minLength d"
  shows "Distance_resolve s d = (d, [])"
  using assms by (simp add: Distance_resolve_def)

theorem Distance_resolve_slack_noop_witness:
  "\<bar>distance exDistanceSlack\<bar> < minLength exDistanceSlack \<and>
   Distance_resolve exStore exDistanceSlack = (exDistanceSlack, [])"
proof -
  have h: "\<bar>distance exDistanceSlack\<bar> < minLength exDistanceSlack"
    by (simp add: exDistanceSlack_def)
  from Distance_resolve_slack_noop [OF h] h show ?thesis by simp
qed

text \<open>
  C2. \<^verbatim>\<open>Distance.update\<close> never gets as far as gamma and beta when no global variable
  \<^verbatim>\<open>period\<close> exists: the test \<^verbatim>\<open>period === 0\<close> reads an undeclared identifier and throws.
  Here on a constraint with the default options, for the call \<^verbatim>\<open>update(0, 1/60)\<close>.
\<close>

theorem Distance_update_throws:
  "Distance_update Undeclared exStore 0 (1 / 60) (Distance_init exStore noOptions exDistanceRaw)
     = Inl ReferenceError"
  by (simp add: Distance_update_def Let_def)

text \<open>The same on every constraint, store and time step.\<close>

lemma Distance_update_undeclared: "Distance_update Undeclared s time dt d = Inl ReferenceError"
  by (simp add: Distance_update_def Let_def)

text \<open>
  With a global \<^verbatim>\<open>period\<close>, it is the global that selects the branch, whatever the
  constraint's own period: a constraint of period zero goes through the spring-damper
  formulas when the global is not zero.
\<close>

lemma Distance_update_branch_on_global:
  "g \<noteq> 0 \<Longrightarrow> Distance_update (NumVal g) s time dt d = Inr (d', es) \<Longrightarrow>
     divisor d' = 1 / (dt * (damping d * (1 / (inverseMass (s (dA d)) + inverseMass (s (dB d))))
                          + dt * (stiffness d * (1 / (inverseMass (s (dA d)) + inverseMass (s (dB d)))))))
                  + (inverseMass (s (dA d)) + inverseMass (s (dB d)))"
  by (auto simp: Distance_update_def Let_def)

lemma Distance_update_rigid_on_global:
  "Distance_update (NumVal 0) s time dt d = Inr (d', es) \<Longrightarrow>
     divisor d' = inverseMass (s (dA d)) + inverseMass (s (dB d))"
  by (auto simp: Distance_update_def Let_def)

section \<open>Contact\<close>

lemma exContact_reset: "Contact_reset exStore exPooled 0 1 exData = exContact"
  unfolding Contact_reset_def Contact_init_def effMass_def exContact_def
  by (simp add: ex_defs vec_defs Let_def)


lemma exContact_update: "fst (Contact_update exStore 1 exContact) = exPrepared"
  unfolding Contact_update_def contactSpeed_def relativeVelocity_def exPrepared_def exContact_def
  by (simp add: ex_defs vec_defs Let_def)

lemma exPrepared_resolve:
  "Contact_resolve exStore exPrepared =
     Some (exResolved,
           [ApplyImpulse 1 (vec 0 0 (1 / 3)), ApplyAngularImpulse 1 (vec 0 0 0),
            ApplyImpulse 0 (vec 0 0 (- (1 / 3))), ApplyAngularImpulse 0 (vec 0 (1 / 3) 0)])"
  unfolding Contact_resolve_def relativeVelocity_def exResolved_def exPrepared_def exContact_def
  by (simp add: ex_defs vec_defs Let_def clamp_def)

text \<open>
  \<^verbatim>\<open>resolve\<close> computes with finite numbers exactly when the velocity bias and the three
  effective masses are finite, and it leaves these fields and the friction coefficient as
  they are.
\<close>

lemma Contact_resolve_None_iff:
  "Contact_resolve s c = None \<longleftrightarrow> velocityBias c = None \<or> \<not> finiteMasses c"
  by (cases "velocityBias c"; cases "effNormalMass c"; cases "effTangentialMass1 c";
      cases "effTangentialMass2 c"; simp add: Contact_resolve_def finiteMasses_def Let_def)

lemma Contact_resolve_returns:
  "velocityBias c \<noteq> None \<Longrightarrow> finiteMasses c \<Longrightarrow> \<exists>c' es. Contact_resolve s c = Some (c', es)"
  using Contact_resolve_None_iff [of s c] by (cases "Contact_resolve s c") auto

lemma Contact_resolve_unset: "velocityBias c = None \<Longrightarrow> Contact_resolve s c = None"
  by (simp add: Contact_resolve_None_iff)

lemma Contact_resolve_finite:
  assumes "Contact_resolve s c = Some r"
  obtains bias effN effT1 effT2 where
    "velocityBias c = Some bias" and "effNormalMass c = Some effN" and
    "effTangentialMass1 c = Some effT1" and "effTangentialMass2 c = Some effT2"
  using assms Contact_resolve_None_iff [of s c] by (auto simp: finiteMasses_def)

lemma Contact_resolve_keeps:
  assumes r: "Contact_resolve s c = Some (c', es)"
  shows "velocityBias c \<noteq> None \<and> finiteMasses c \<and>
     velocityBias c' = velocityBias c \<and> finiteMasses c' = finiteMasses c \<and>
     friction c' = friction c"
proof -
  from r obtain bias effN effT1 effT2 where
    f: "velocityBias c = Some bias" "effNormalMass c = Some effN"
       "effTangentialMass1 c = Some effT1" "effTangentialMass2 c = Some effT2"
    by (rule Contact_resolve_finite)
  from r show ?thesis
    by (auto simp: Contact_resolve_def finiteMasses_def Let_def f)
qed

lemma Contact_resolves_returns:
  "velocityBias c \<noteq> None \<Longrightarrow> finiteMasses c \<Longrightarrow> \<exists>c'. Contact_resolves ss c = Some c'"
proof (induction ss arbitrary: c)
  case Nil
  show ?case by simp
next
  case (Cons s ss)
  obtain c1 es where r: "Contact_resolve s c = Some (c1, es)"
    using Contact_resolve_returns [OF Cons.prems] by blast
  have "velocityBias c1 \<noteq> None" and "finiteMasses c1"
    using Contact_resolve_keeps [OF r] by simp_all
  from Cons.IH [OF this] show ?case by (simp add: r)
qed

text \<open>
  A contact on which \<^verbatim>\<open>update\<close> has never run, or has run with \<^verbatim>\<open>dt = 0\<close>, has no finite
  velocity bias, and \<^verbatim>\<open>resolve\<close> on it computes with \<^verbatim>\<open>undefined\<close>, \<^verbatim>\<open>NaN\<close> or an infinity.
\<close>

lemma Contact_reset_bias: "velocityBias (Contact_reset s p a b d) = velocityBias p"
  by (simp add: Contact_reset_def Contact_init_def Let_def)

lemma Contact_resolve_after_reset_of_new:
  "velocityBias p = None \<Longrightarrow> Contact_resolve s (Contact_reset s0 p a b d) = None"
  by (simp add: Contact_resolve_unset Contact_reset_bias)

lemma Contact_update_bias: "dt \<noteq> 0 \<Longrightarrow> velocityBias (fst (Contact_update s dt c)) \<noteq> None"
  by (simp add: Contact_update_def Let_def)

lemma Contact_resolve_after_update_0: "Contact_resolve s (fst (Contact_update s0 0 c)) = None"
  by (rule Contact_resolve_unset) (simp add: Contact_update_def Let_def)

lemma Contact_update_masses: "finiteMasses (fst (Contact_update s dt c)) = finiteMasses c"
  by (simp add: Contact_update_def finiteMasses_def Let_def)

lemma Contact_resolve_normal_nonneg:
  assumes r: "Contact_resolve s c = Some (c', es)"
  shows "0 \<le> normalImpulse c'"
proof -
  from r obtain bias effN effT1 effT2 where
    f: "velocityBias c = Some bias" "effNormalMass c = Some effN"
       "effTangentialMass1 c = Some effT1" "effTangentialMass2 c = Some effT2"
    by (rule Contact_resolve_finite)
  from r show ?thesis
    by (auto simp: Contact_resolve_def Let_def f)
qed


lemma Contact_update_zeroed:
  "normalImpulse (fst (Contact_update s dt c)) = 0 \<and>
   tangentImpulse1 (fst (Contact_update s dt c)) = 0 \<and>
   tangentImpulse2 (fst (Contact_update s dt c)) = 0 \<and>
   impulse (fst (Contact_update s dt c)) = vzero \<and>
   angImpulseA (fst (Contact_update s dt c)) = vzero \<and>
   angImpulseB (fst (Contact_update s dt c)) = vzero \<and>
   friction (fst (Contact_update s dt c)) = friction c"
  by (simp add: Contact_update_def Let_def)




lemma clamp_within: "0 \<le> m \<Longrightarrow> \<bar>clamp v (- m) m\<bar> \<le> m"
  by (auto simp: clamp_def)

text \<open>Both tangential accumulators are stored clamped to the cone of the new normal impulse.\<close>

lemma Contact_resolve_tangents:
  assumes r: "Contact_resolve s c = Some (c', es)"
  shows "\<exists>v1 v2.
     tangentImpulse1 c' =
       clamp v1 (- (friction c * normalImpulse c')) (friction c * normalImpulse c') \<and>
     tangentImpulse2 c' =
       clamp v2 (- (friction c * normalImpulse c')) (friction c * normalImpulse c')"
proof -
  from r obtain bias effN effT1 effT2 where
    f: "velocityBias c = Some bias" "effNormalMass c = Some effN"
       "effTangentialMass1 c = Some effT1" "effTangentialMass2 c = Some effT2"
    by (rule Contact_resolve_finite)
  from r show ?thesis
    apply (clarsimp simp: Contact_resolve_def Let_def f)
    apply (intro exI conjI)
     apply (rule refl)+
    done
qed

lemma Contact_resolve_cone:
  assumes "0 \<le> friction c" and r: "Contact_resolve s c = Some (c', es)"
  shows "frictionCone c'"
proof -
  have "0 \<le> friction c * normalImpulse c'"
    using assms(1) Contact_resolve_normal_nonneg [OF r] by simp
  moreover obtain v1 v2 where
    "tangentImpulse1 c' =
       clamp v1 (- (friction c * normalImpulse c')) (friction c * normalImpulse c')"
    "tangentImpulse2 c' =
       clamp v2 (- (friction c * normalImpulse c')) (friction c * normalImpulse c')"
    using Contact_resolve_tangents [OF r] by blast
  moreover have "friction c' = friction c"
    using Contact_resolve_keeps [OF r] by simp
  ultimately show ?thesis
    by (simp add: frictionCone_def clamp_within)
qed

lemma Contact_resolves_cone:
  "Contact_resolves ss c = Some c' \<Longrightarrow> 0 \<le> friction c \<Longrightarrow> frictionCone c \<Longrightarrow> frictionCone c'"
proof (induction ss arbitrary: c)
  case Nil
  then show ?case by simp
next
  case (Cons s ss)
  from Cons.prems(1) obtain c1 es where r: "Contact_resolve s c = Some (c1, es)"
    and rest: "Contact_resolves ss c1 = Some c'"
    by (auto split: option.splits)
  have "0 \<le> friction c1"
    using Cons.prems(2) Contact_resolve_keeps [OF r] by simp
  moreover have "frictionCone c1"
    using Cons.prems(2) r by (rule Contact_resolve_cone)
  ultimately show ?case using Cons.IH [OF rest] by simp
qed

lemma Contact_resolve_collapse:
  assumes "Contact_resolve s c = Some (c', es)" and "normalImpulse c' = 0"
  shows "tangentImpulse1 c' = 0 \<and> tangentImpulse2 c' = 0"
  using Contact_resolve_tangents [OF assms(1)] assms(2) by (auto simp: clamp_def)

lemma exPooled_reset_neg:
  "Contact_reset exStoreNeg exPooled 0 1 exData = exContact\<lparr>friction := -1\<rparr>"
  unfolding Contact_reset_def Contact_init_def effMass_def exContact_def
  by (simp add: ex_defs vec_defs Let_def)

lemma exPreparedNeg_update:
  "fst (Contact_update exStoreNeg 1 (exContact\<lparr>friction := -1\<rparr>)) = exPreparedNeg"
  unfolding Contact_update_def contactSpeed_def relativeVelocity_def exPreparedNeg_def
    exPrepared_def exContact_def
  by (simp add: ex_defs vec_defs Let_def)

text \<open>
  C4 as stated fails when the friction coefficient of the contact is negative. Two
  unit-mass bodies with unit inverse inertia, bodyA at rest with friction \<open>-1\<close>, bodyB with
  friction \<open>1\<close> moving at \<open>(0, 0, -1)\<close>; a contact with normal \<open>(0, 0, 1)\<close>, local contact
  points \<open>(1, 0, 0)\<close> and \<open>(0, 0, 0)\<close>, penetration 1. After \<^verbatim>\<open>reset\<close> and \<^verbatim>\<open>update(1)\<close>,
  \<^verbatim>\<open>resolve\<close> computes with finite numbers and stores the normal impulse \<open>1/3\<close>, so
  \<^verbatim>\<open>maxFriction\<close> is \<open>-1/3\<close>, and \<^verbatim>\<open>clamp(0, 1/3, -1/3)\<close> stores the tangential impulse
  \<open>1/3\<close>, above \<open>friction * normalImpulse = -1/3\<close>.
\<close>

theorem Contact_friction_cone_counterexample:
  "Contact_resolve exStoreNeg
     (fst (Contact_update exStoreNeg 1 (Contact_reset exStoreNeg exPooled 0 1 exData))) \<noteq> None \<and>
   \<not> frictionCone (fst (the (Contact_resolve exStoreNeg
         (fst (Contact_update exStoreNeg 1 (Contact_reset exStoreNeg exPooled 0 1 exData))))))"
  unfolding exPooled_reset_neg exPreparedNeg_update
  unfolding Contact_resolve_def relativeVelocity_def exPreparedNeg_def exPrepared_def exContact_def
    frictionCone_def
  by (simp add: ex_defs vec_defs Let_def clamp_def)

text \<open>
  C4, amended. On a contact whose friction coefficient is not negative and whose velocity
  bias and effective masses are finite numbers (\<^verbatim>\<open>update\<close> has run on the instance with
  \<open>dt \<noteq> 0\<close>, and the effective masses of \<^verbatim>\<open>init\<close> are not infinite), \<^verbatim>\<open>resolve\<close> stores
  accumulators with \<open>|tangentImpulse1| \<le> friction * normalImpulse\<close> and
  \<open>|tangentImpulse2| \<le> friction * normalImpulse\<close>: after one call from any state, and
  after every sequence of calls from the accumulators zeroed by \<^verbatim>\<open>update(dt)\<close> with
  \<open>dt \<noteq> 0\<close>. Whatever the friction coefficient, when such a call stores the normal impulse
  0 it stores both tangential accumulators as 0.
\<close>

theorem Contact_friction_cone:
  "(0 \<le> friction c \<and> velocityBias c \<noteq> None \<and> finiteMasses c \<longrightarrow>
      (\<exists>c' es. Contact_resolve s c = Some (c', es) \<and> frictionCone c')) \<and>
   (0 \<le> friction c0 \<and> dt \<noteq> 0 \<and> finiteMasses c0 \<longrightarrow>
      (\<exists>c'. Contact_resolves ss (fst (Contact_update s0 dt c0)) = Some c' \<and> frictionCone c')) \<and>
   (Contact_resolve s1 c1 = Some (c1', es1) \<and> normalImpulse c1' = 0 \<longrightarrow>
      tangentImpulse1 c1' = 0 \<and> tangentImpulse2 c1' = 0)"
proof -
  have one: "\<exists>c' es. Contact_resolve s c = Some (c', es) \<and> frictionCone c'"
    if "0 \<le> friction c" and "velocityBias c \<noteq> None" and "finiteMasses c"
    using Contact_resolve_returns [OF that(2,3)] Contact_resolve_cone [OF that(1)] by blast
  have upd: "\<exists>c'. Contact_resolves ss (fst (Contact_update s0 dt c0)) = Some c' \<and> frictionCone c'"
    if "0 \<le> friction c0" and "dt \<noteq> 0" and "finiteMasses c0"
  proof -
    have "velocityBias (fst (Contact_update s0 dt c0)) \<noteq> None"
      using that(2) by (rule Contact_update_bias)
    moreover have "finiteMasses (fst (Contact_update s0 dt c0))"
      using that(3) by (simp add: Contact_update_masses)
    ultimately obtain c' where r: "Contact_resolves ss (fst (Contact_update s0 dt c0)) = Some c'"
      using Contact_resolves_returns by blast
    have "frictionCone c'"
      by (rule Contact_resolves_cone [OF r])
         (simp_all add: that(1) frictionCone_def Contact_update_zeroed)
    with r show ?thesis by blast
  qed
  have col: "tangentImpulse1 c1' = 0 \<and> tangentImpulse2 c1' = 0"
    if "Contact_resolve s1 c1 = Some (c1', es1)" and "normalImpulse c1' = 0"
    using that by (rule Contact_resolve_collapse)
  show ?thesis
    apply (intro conjI impI)
       apply (elim conjE, erule (2) one)
      apply (elim conjE, erule (2) upd)
     apply (erule conjE, erule (1) col [THEN conjunct1])
    apply (erule conjE, erule (1) col [THEN conjunct2])
    done
qed

lemma exContactLoaded_resolve_apart:
  "Contact_resolve exStoreApart exContactLoaded =
     Some (exContactLoaded\<lparr>normalImpulse := 0, tangentImpulse1 := 0,
                           impulse := vec 0 (1 / 4) (1 / 3),
                           angImpulseA := vec 0 (- (1 / 3)) (1 / 4)\<rparr>,
           [ApplyImpulse 1 (vec 0 (- (1 / 4)) (- (1 / 3))), ApplyAngularImpulse 1 (vec 0 0 0),
            ApplyImpulse 0 (vec 0 (1 / 4) (1 / 3)),
            ApplyAngularImpulse 0 (vec 0 (- (1 / 3)) (1 / 4))])"
  unfolding Contact_resolve_def relativeVelocity_def exContactLoaded_def exPrepared_def
    exContact_def
  by (simp add: ex_defs vec_defs Let_def clamp_def)

theorem Contact_friction_cone_witness:
  "0 \<le> friction exContactLoaded \<and> velocityBias exContactLoaded \<noteq> None \<and>
   finiteMasses exContactLoaded \<and> (1::real) \<noteq> 0 \<and>
   Contact_resolve exStoreApart exContactLoaded \<noteq> None \<and>
   normalImpulse (fst (the (Contact_resolve exStoreApart exContactLoaded))) = 0 \<and>
   frictionCone (fst (the (Contact_resolve exStoreApart exContactLoaded))) \<and>
   Contact_resolves [exStore, exStoreApart] (fst (Contact_update exStore 1 exContactLoaded)) \<noteq> None \<and>
   frictionCone
     (the (Contact_resolves [exStore, exStoreApart] (fst (Contact_update exStore 1 exContactLoaded)))) \<and>
   tangentImpulse1 (fst (the (Contact_resolve exStoreApart exContactLoaded))) = 0 \<and>
   tangentImpulse2 (fst (the (Contact_resolve exStoreApart exContactLoaded))) = 0"
proof -
  have h1: "0 \<le> friction exContactLoaded \<and> velocityBias exContactLoaded \<noteq> None \<and>
            finiteMasses exContactLoaded \<and> (1::real) \<noteq> 0"
    by (simp add: finiteMasses_def exContactLoaded_def exPrepared_def exContact_def)
  have h2: "Contact_resolve exStoreApart exContactLoaded =
     Some (exContactLoaded\<lparr>normalImpulse := 0, tangentImpulse1 := 0,
                           impulse := vec 0 (1 / 4) (1 / 3),
                           angImpulseA := vec 0 (- (1 / 3)) (1 / 4)\<rparr>,
           [ApplyImpulse 1 (vec 0 (- (1 / 4)) (- (1 / 3))), ApplyAngularImpulse 1 (vec 0 0 0),
            ApplyImpulse 0 (vec 0 (1 / 4) (1 / 3)),
            ApplyAngularImpulse 0 (vec 0 (- (1 / 3)) (1 / 4))])"
    by (rule exContactLoaded_resolve_apart)
  have h3: "normalImpulse (exContactLoaded\<lparr>normalImpulse := 0, tangentImpulse1 := 0,
                           impulse := vec 0 (1 / 4) (1 / 3),
                           angImpulseA := vec 0 (- (1 / 3)) (1 / 4)\<rparr>) = 0"
    by simp
  from Contact_friction_cone
         [of exContactLoaded exStoreApart exContactLoaded 1 "[exStore, exStoreApart]" exStore
             exStoreApart exContactLoaded
             "exContactLoaded\<lparr>normalImpulse := 0, tangentImpulse1 := 0,
                           impulse := vec 0 (1 / 4) (1 / 3),
                           angImpulseA := vec 0 (- (1 / 3)) (1 / 4)\<rparr>"
             "[ApplyImpulse 1 (vec 0 (- (1 / 4)) (- (1 / 3))), ApplyAngularImpulse 1 (vec 0 0 0),
               ApplyImpulse 0 (vec 0 (1 / 4) (1 / 3)),
               ApplyAngularImpulse 0 (vec 0 (- (1 / 3)) (1 / 4))]"]
       h1 h2 h3
  show ?thesis by auto
qed

text \<open>
  \<^verbatim>\<open>Contact.update(dt)\<close> on the stored fields, for \<open>dt \<noteq> 0\<close>: the velocity bias is
  \<open>-0.15 * max (penetration - 1.5) 0 / dt\<close> plus restitution times the contact speed,
  where the restitution counts as zero when the contact speed is below 20 in absolute
  value; the bodies receive a quarter of the stored vectors (bodyB \<^verbatim>\<open>impulse\<close> and
  \<^verbatim>\<open>angImpulseB\<close>, bodyA the negated \<^verbatim>\<open>impulse\<close> and \<^verbatim>\<open>angImpulseA\<close>), in this order; all
  scalar and vector accumulators are zero afterwards, and nothing else of the contact
  changes.
\<close>

lemma Contact_update_prepares:
  assumes "dt \<noteq> 0"
  shows
  "velocityBias (fst (Contact_update s dt c)) =
     Some (- 0.15 * max (penetration (data c) - 1.5) 0 / dt
           + (if \<bar>contactSpeed s c\<bar> < 20 then 0 else restitution c) * contactSpeed s c) \<and>
   snd (Contact_update s dt c) =
     [ApplyImpulse (bodyB c) (vscale (impulse c) (1 / 4)),
      ApplyAngularImpulse (bodyB c) (vscale (angImpulseB c) (1 / 4)),
      ApplyImpulse (bodyA c) (vinvert (vscale (impulse c) (1 / 4))),
      ApplyAngularImpulse (bodyA c) (vscale (angImpulseA c) (1 / 4))] \<and>
   fst (Contact_update s dt c) =
     c\<lparr>velocityBias := velocityBias (fst (Contact_update s dt c)),
       normalImpulse := 0, tangentImpulse1 := 0, tangentImpulse2 := 0,
       impulse := vec 0 0 0, angImpulseA := vec 0 0 0, angImpulseB := vec 0 0 0\<rparr>"
  using assms by (simp add: Contact_update_def Let_def vzero_def)

text \<open>
  At a contact speed of 30 in absolute value the restitution is kept: with restitution
  \<open>1/2\<close> and a penetration below the slop, the velocity bias is \<open>1/2 * (-30)\<close>.
\<close>

lemma Contact_update_fast:
  "velocityBias (fst (Contact_update exStoreFast 1 (exPrepared\<lparr>restitution := 1 / 2\<rparr>))) =
     Some (- 15)"
  unfolding Contact_update_def contactSpeed_def relativeVelocity_def exPrepared_def exContact_def
    exStoreFast_def
  by (simp add: ex_defs vec_defs Let_def)

lemma Contact_resolve_effects:
  assumes r: "Contact_resolve s c = Some (c', es)"
  shows "\<exists>J. es =
     [ApplyImpulse (bodyB c) J,
      ApplyAngularImpulse (bodyB c) (vcross (localContactB (data c)) J),
      ApplyImpulse (bodyA c) (vinvert J),
      ApplyAngularImpulse (bodyA c) (vinvert (vcross (localContactA (data c)) J))]"
proof -
  from r obtain bias effN effT1 effT2 where
    f: "velocityBias c = Some bias" "effNormalMass c = Some effN"
       "effTangentialMass1 c = Some effT1" "effTangentialMass2 c = Some effT2"
    by (rule Contact_resolve_finite)
  from r show ?thesis
    by (auto simp: Contact_resolve_def Let_def f)
qed

text \<open>
  What \<^verbatim>\<open>resolve\<close> leaves in the vector accumulators: \<^verbatim>\<open>impulse\<close> collects the inverted
  vector, the one applied to bodyA; \<^verbatim>\<open>angImpulseA\<close> and \<^verbatim>\<open>angImpulseB\<close> collect what was
  applied to bodyA and to bodyB.
\<close>

lemma Contact_resolve_accumulates:
  assumes r: "Contact_resolve s c = Some (c', es)"
  shows "\<exists>J aA aB.
     es = [ApplyImpulse (bodyB c) J, ApplyAngularImpulse (bodyB c) aB,
           ApplyImpulse (bodyA c) (vinvert J), ApplyAngularImpulse (bodyA c) aA] \<and>
     impulse c' = vadd (impulse c) (vinvert J) \<and>
     angImpulseA c' = vadd (angImpulseA c) aA \<and>
     angImpulseB c' = vadd (angImpulseB c) aB \<and>
     bodyA c' = bodyA c \<and> bodyB c' = bodyB c"
proof -
  from r obtain bias effN effT1 effT2 where
    f: "velocityBias c = Some bias" "effNormalMass c = Some effN"
       "effTangentialMass1 c = Some effT1" "effTangentialMass2 c = Some effT2"
    by (rule Contact_resolve_finite)
  from r show ?thesis
    by (auto simp: Contact_resolve_def Let_def f)
qed

lemma vadd_vzero: "vadd vzero v = v"
  by (simp add: vadd_def vzero_def vec_def)

lemma vscale_vinvert: "vscale (vinvert v) k = vinvert (vscale v k)"
  by (simp add: vscale_def vinvert_def vec_def)

lemma vinvert_vinvert: "vinvert (vinvert v) = v"
  by (simp add: vinvert_def vec_def)

text \<open>
  So after one \<^verbatim>\<open>resolve\<close> from cleared accumulators, whatever the contact and the bodies,
  the next \<^verbatim>\<open>update\<close> applies to bodyB the negation of a quarter of the linear impulse
  \<open>J\<close> that \<^verbatim>\<open>resolve\<close> applied to bodyB, and to bodyA a quarter of \<open>J\<close> itself, the
  negation of what \<^verbatim>\<open>resolve\<close> applied to bodyA; each angular quarter goes to the body
  that received the angular impulse, with the same sign.
\<close>

lemma Contact_warm_start_opposed:
  assumes r: "Contact_resolve s c = Some (c', es)"
    and z: "impulse c = vzero" "angImpulseA c = vzero" "angImpulseB c = vzero"
  shows "\<exists>J aA aB.
     es = [ApplyImpulse (bodyB c) J, ApplyAngularImpulse (bodyB c) aB,
           ApplyImpulse (bodyA c) (vinvert J), ApplyAngularImpulse (bodyA c) aA] \<and>
     snd (Contact_update s' dt c') =
          [ApplyImpulse (bodyB c) (vinvert (vscale J (1 / 4))),
           ApplyAngularImpulse (bodyB c) (vscale aB (1 / 4)),
           ApplyImpulse (bodyA c) (vscale J (1 / 4)),
           ApplyAngularImpulse (bodyA c) (vscale aA (1 / 4))]"
proof -
  obtain J aA aB where
    es: "es = [ApplyImpulse (bodyB c) J, ApplyAngularImpulse (bodyB c) aB,
               ApplyImpulse (bodyA c) (vinvert J), ApplyAngularImpulse (bodyA c) aA]"
    and acc: "impulse c' = vinvert J" "angImpulseA c' = aA" "angImpulseB c' = aB"
             "bodyA c' = bodyA c" "bodyB c' = bodyB c"
    using Contact_resolve_accumulates [OF r] by (auto simp: z vadd_vzero)
  have "snd (Contact_update s' dt c') =
          [ApplyImpulse (bodyB c) (vinvert (vscale J (1 / 4))),
           ApplyAngularImpulse (bodyB c) (vscale aB (1 / 4)),
           ApplyImpulse (bodyA c) (vscale J (1 / 4)),
           ApplyAngularImpulse (bodyA c) (vscale aA (1 / 4))]"
    by (simp add: Contact_update_def Let_def acc vscale_vinvert vinvert_vinvert)
  with es show ?thesis by blast
qed

text \<open>
  C9 fails on the warm start. Two unit-mass bodies with unit inverse inertia, bodyA
  (reference 0) at rest, bodyB (reference 1) moving at \<open>(0, 0, -1)\<close>; a contact with
  normal \<open>(0, 0, 1)\<close>, local contact points \<open>(1, 0, 0)\<close> on bodyA and \<open>(0, 0, 0)\<close> on bodyB,
  penetration 1. After \<^verbatim>\<open>reset\<close> and \<^verbatim>\<open>update(1)\<close>, \<^verbatim>\<open>resolve\<close> applies the linear impulse
  \<open>(0, 0, 1/3)\<close> to bodyB and \<open>(0, 0, -1/3)\<close> to bodyA, and the angular impulse
  \<open>(0, 1/3, 0)\<close> to bodyA. The next \<^verbatim>\<open>update(1)\<close> then applies \<open>(0, 0, -1/12)\<close> to bodyB and
  \<open>(0, 0, 1/12)\<close> to bodyA: a quarter of the previous step's linear impulse with the sign
  reversed, negated to bodyB and positive to bodyA, while the angular quarter
  \<open>(0, 1/12, 0)\<close> goes to bodyA with the sign it had.
\<close>

theorem Contact_update_warm_start_reversed:
  "Contact_resolve exStore
     (fst (Contact_update exStore 1 (Contact_reset exStore exPooled 0 1 exData))) =
     Some (exResolved,
           [ApplyImpulse 1 (vec 0 0 (1 / 3)), ApplyAngularImpulse 1 (vec 0 0 0),
            ApplyImpulse 0 (vec 0 0 (- (1 / 3))), ApplyAngularImpulse 0 (vec 0 (1 / 3) 0)]) \<and>
   snd (Contact_update exStore 1 exResolved) =
     [ApplyImpulse 1 (vec 0 0 (- (1 / 12))), ApplyAngularImpulse 1 (vec 0 0 0),
      ApplyImpulse 0 (vec 0 0 (1 / 12)), ApplyAngularImpulse 0 (vec 0 (1 / 12) 0)]"
proof -
  have "snd (Contact_update exStore 1 exResolved) =
     [ApplyImpulse 1 (vec 0 0 (- (1 / 12))), ApplyAngularImpulse 1 (vec 0 0 0),
      ApplyImpulse 0 (vec 0 0 (1 / 12)), ApplyAngularImpulse 0 (vec 0 (1 / 12) 0)]"
    unfolding Contact_update_def exResolved_def exPrepared_def exContact_def
    by (simp add: vec_defs Let_def)
  then show ?thesis
    unfolding exContact_reset exContact_update exPrepared_resolve by simp
qed

lemma Distance_resolve_effects:
  "snd (Distance_resolve s d) = [] \<or>
   (\<exists>J. snd (Distance_resolve s d) = [ApplyImpulse (dB d) J, ApplyImpulse (dA d) (vinvert J)])"
  by (simp add: Distance_resolve_def Let_def)

text \<open>
  C1 as stated fails for the angular impulses of a contact. Two unit-mass bodies with
  unit inverse inertia, bodyA (reference 0) at rest, bodyB (reference 1) moving at
  \<open>(0, 0, -1)\<close>; a contact with normal \<open>(0, 0, 1)\<close>, local contact points \<open>(1, 0, 0)\<close> on
  bodyA and \<open>(0, 0, 0)\<close> on bodyB, penetration 1. After \<^verbatim>\<open>reset\<close> and \<^verbatim>\<open>update(1)\<close>,
  \<^verbatim>\<open>resolve\<close> applies the linear impulse \<open>(0, 0, 1/3)\<close> to bodyB and its negation to
  bodyA, but the angular impulse \<open>(0, 0, 0)\<close> to bodyB and \<open>(0, 1/3, 0)\<close> to bodyA.
\<close>

theorem resolve_angular_negation_counterexample:
  "Contact_resolve exStore
     (fst (Contact_update exStore 1 (Contact_reset exStore exPooled 0 1 exData))) \<noteq> None \<and>
   angularTo 0 (snd (the (Contact_resolve exStore
       (fst (Contact_update exStore 1 (Contact_reset exStore exPooled 0 1 exData)))))) \<noteq>
   map vinvert (angularTo 1 (snd (the (Contact_resolve exStore
       (fst (Contact_update exStore 1 (Contact_reset exStore exPooled 0 1 exData)))))))"
  unfolding exContact_reset exContact_update exPrepared_resolve
  by (simp add: vec_defs)

text \<open>
  C1, amended. For every \<^verbatim>\<open>Contact.resolve\<close> and \<^verbatim>\<open>Distance.resolve\<close> on two different
  bodies, the linear impulse applied to bodyA is the exact negation of the one applied to
  bodyB. A contact applies the angular impulse \<open>rB \<times> J\<close> to bodyB and \<open>-(rA \<times> J)\<close> to
  bodyA, where \<open>J\<close> is the linear impulse on bodyB and \<open>rA\<close>, \<open>rB\<close> are the local contact
  points; a distance constraint applies no angular impulse. For a contact this is about
  the calls that compute with finite numbers, those on a contact whose velocity bias and
  effective masses are finite, and every such call applies these impulses.
\<close>

theorem resolve_impulses_opposed:
  assumes "bodyA c \<noteq> bodyB c" and "dA d \<noteq> dB d"
  shows
  "(velocityBias c \<noteq> None \<and> finiteMasses c \<longrightarrow>
      (\<exists>c' es J. Contact_resolve s c = Some (c', es) \<and>
         linearTo (bodyA c) es = map vinvert (linearTo (bodyB c) es) \<and>
         linearTo (bodyB c) es = [J] \<and>
         angularTo (bodyB c) es = [vcross (localContactB (data c)) J] \<and>
         angularTo (bodyA c) es = [vinvert (vcross (localContactA (data c)) J)])) \<and>
   linearTo (dA d) (snd (Distance_resolve s' d)) =
     map vinvert (linearTo (dB d) (snd (Distance_resolve s' d))) \<and>
   angularTo (dA d) (snd (Distance_resolve s' d)) = [] \<and>
   angularTo (dB d) (snd (Distance_resolve s' d)) = []"
proof -
  have contact: "\<exists>c' es J. Contact_resolve s c = Some (c', es) \<and>
         linearTo (bodyA c) es = map vinvert (linearTo (bodyB c) es) \<and>
         linearTo (bodyB c) es = [J] \<and>
         angularTo (bodyB c) es = [vcross (localContactB (data c)) J] \<and>
         angularTo (bodyA c) es = [vinvert (vcross (localContactA (data c)) J)]"
    if vb: "velocityBias c \<noteq> None" and fm: "finiteMasses c"
  proof -
    obtain c' es where r: "Contact_resolve s c = Some (c', es)"
      using Contact_resolve_returns [OF vb fm] by blast
    obtain J where J: "es =
       [ApplyImpulse (bodyB c) J,
        ApplyAngularImpulse (bodyB c) (vcross (localContactB (data c)) J),
        ApplyImpulse (bodyA c) (vinvert J),
        ApplyAngularImpulse (bodyA c) (vinvert (vcross (localContactA (data c)) J))]"
      using Contact_resolve_effects [OF r] by blast
    have "linearTo (bodyA c) es = map vinvert (linearTo (bodyB c) es) \<and>
       linearTo (bodyB c) es = [J] \<and>
       angularTo (bodyB c) es = [vcross (localContactB (data c)) J] \<and>
       angularTo (bodyA c) es = [vinvert (vcross (localContactA (data c)) J)]"
      unfolding J using assms(1) by auto
    with r show ?thesis by blast
  qed
  have dist: "linearTo (dA d) (snd (Distance_resolve s' d)) =
       map vinvert (linearTo (dB d) (snd (Distance_resolve s' d))) \<and>
     angularTo (dA d) (snd (Distance_resolve s' d)) = [] \<and>
     angularTo (dB d) (snd (Distance_resolve s' d)) = []"
    using Distance_resolve_effects [of s' d] assms(2) by auto
  show ?thesis
    apply (intro conjI impI)
       apply (erule conjE, erule (1) contact)
      apply (rule dist [THEN conjunct1])
     apply (rule dist [THEN conjunct2, THEN conjunct1])
    apply (rule dist [THEN conjunct2, THEN conjunct2])
    done
qed

theorem resolve_impulses_opposed_witness:
  "bodyA exPrepared \<noteq> bodyB exPrepared \<and> dA exDistanceTaut \<noteq> dB exDistanceTaut \<and>
   velocityBias exPrepared \<noteq> None \<and> finiteMasses exPrepared \<and>
   Contact_resolve exStore exPrepared \<noteq> None \<and>
   linearTo (bodyB exPrepared) (snd (the (Contact_resolve exStore exPrepared))) =
     [vec 0 0 (1 / 3)] \<and>
   linearTo (bodyA exPrepared) (snd (the (Contact_resolve exStore exPrepared))) =
     map vinvert (linearTo (bodyB exPrepared) (snd (the (Contact_resolve exStore exPrepared)))) \<and>
   linearTo (dB exDistanceTaut) (snd (Distance_resolve exStore exDistanceTaut)) = [vec 0 0 0] \<and>
   linearTo (dA exDistanceTaut) (snd (Distance_resolve exStore exDistanceTaut)) =
     map vinvert (linearTo (dB exDistanceTaut) (snd (Distance_resolve exStore exDistanceTaut)))"
proof -
  have h1: "bodyA exPrepared \<noteq> bodyB exPrepared"
    by (simp add: exPrepared_def exContact_def)
  have h2: "dA exDistanceTaut \<noteq> dB exDistanceTaut"
    by (simp add: exDistanceTaut_def exDistanceRaw_def)
  have h3: "velocityBias exPrepared \<noteq> None \<and> finiteMasses exPrepared"
    by (simp add: finiteMasses_def exPrepared_def exContact_def)
  have c: "linearTo (bodyB exPrepared) (snd (the (Contact_resolve exStore exPrepared))) =
             [vec 0 0 (1 / 3)]"
    unfolding exPrepared_resolve by (simp add: exPrepared_def exContact_def)
  have d: "linearTo (dB exDistanceTaut) (snd (Distance_resolve exStore exDistanceTaut)) = [vec 0 0 0]"
    unfolding Distance_resolve_def exDistanceTaut_def exDistanceRaw_def
    by (simp add: ex_defs vec_defs Let_def)
  from resolve_impulses_opposed [OF h1 h2, of exStore exStore] h1 h2 h3 c d
  show ?thesis by auto
qed

section \<open>Manifold\<close>

lemma jsGet_jsPut: "jsGet (jsPut xs i v) j = (if j = i then v else jsGet xs j)"
  by (auto simp: jsGet_def jsPut_def nth_append)

lemma length_jsPut: "length (jsPut xs i v) = max (length xs) (Suc i)"
  by (auto simp: jsPut_def)

lemma jsGet_Some_less: "jsGet xs i = Some c \<Longrightarrow> i < length xs"
  by (auto simp: jsGet_def split: if_splits)

lemma jsGet_beyond: "length xs \<le> j \<Longrightarrow> jsGet xs j = None"
  by (simp add: jsGet_def)

lemma length_map_filter_id: "length (List.map_filter id xs) \<le> length xs"
  by (induction xs) (auto simp: List.map_filter_simps split: option.splits)

lemma map_filter_id_append:
  "List.map_filter id (xs @ ys) = List.map_filter id xs @ List.map_filter id ys"
  by (induction xs) (auto simp: List.map_filter_simps split: option.splits)

lemma map_filter_id_replicate_None: "List.map_filter id (replicate k None) = []"
  by (induction k) (auto simp: List.map_filter_simps)

lemma live_count_update:
  "i < length xs \<Longrightarrow>
     length (List.map_filter id (xs[i := v])) + (if xs ! i = None then 0 else 1)
       = length (List.map_filter id xs) + (if v = None then 0 else 1)"
proof (induction xs arbitrary: i)
  case Nil
  then show ?case by simp
next
  case (Cons x xs)
  show ?case
  proof (cases i)
    case 0
    then show ?thesis by (auto simp: List.map_filter_simps split: option.splits)
  next
    case (Suc j)
    with Cons.prems have "j < length xs" by simp
    from Cons.IH [OF this] Suc show ?thesis
      by (auto simp: List.map_filter_simps split: option.splits)
  qed
qed

lemma live_count_jsPut:
  "length (List.map_filter id (jsPut xs i v)) + (if jsGet xs i = None then 0 else 1)
     = length (List.map_filter id xs) + (if v = None then 0 else 1)"
proof (cases "i < length xs")
  case True
  from live_count_update [OF this, of v] True show ?thesis
    by (simp add: jsPut_def jsGet_def)
next
  case False
  then show ?thesis
    by (cases v)
       (simp_all add: jsPut_def jsGet_def map_filter_id_append map_filter_id_replicate_None
          List.map_filter_simps)
qed

lemma set_map_filter_id: "set (List.map_filter id xs) = {c. Some c \<in> set xs}"
  by (induction xs) (auto simp: List.map_filter_simps split: option.splits)

lemma set_live: "set (live m) = {c. \<exists>i. jsGet (contacts m) i = Some c}"
  by (auto simp: live_def set_map_filter_id jsGet_def in_set_conv_nth)

lemma live_le_4: "manifoldInv m \<Longrightarrow> length (live m) \<le> 4"
  using length_map_filter_id [of "contacts m"] by (simp add: manifoldInv_def live_def)

lemma manifoldInv_reset: "manifoldInv (Manifold_reset lo hi a b)"
  by (simp add: manifoldInv_def Manifold_reset_def live_def List.map_filter_simps)

text \<open>Removing the live contact of a slot keeps the invariant.\<close>

lemma manifoldInv_removeContact:
  assumes "manifoldInv m" and "jsGet (contacts m) i = Some c"
  shows "manifoldInv (fst (removeContact m c i))"
proof -
  have i: "i < length (contacts m)" using assms(2) by (rule jsGet_Some_less)
  have "length (List.map_filter id (jsPut (contacts m) i None)) + 1
          = length (List.map_filter id (contacts m))"
    using live_count_jsPut [of "contacts m" i None] assms(2) by simp
  then show ?thesis
    using assms(1) i by (auto simp: manifoldInv_def removeContact_def live_def length_jsPut)
qed

lemma removeContact_fields:
  "lru (fst (removeContact m c i)) = lru m \<and>
   lowID (fst (removeContact m c i)) = lowID m \<and>
   highID (fst (removeContact m c i)) = highID m \<and>
   mBodyA (fst (removeContact m c i)) = mBodyA m \<and>
   mBodyB (fst (removeContact m c i)) = mBodyB m \<and>
   contacts (fst (removeContact m c i)) = jsPut (contacts m) i None"
  by (simp add: removeContact_def)

text \<open>What \<^verbatim>\<open>addContact\<close> does to the slots, the cursor and the pool.\<close>

lemma addContact_slots:
  "jsGet (contacts (fst (addContact s p m a b d))) j =
     (if j = lru m then Some (Contact_reset s p a b d) else jsGet (contacts m) j)"
  by (auto simp: addContact_def Let_def removeContact_def jsGet_jsPut split: option.splits prod.splits)

lemma addContact_lru: "lru (fst (addContact s p m a b d)) = (lru m + 1) mod 4"
  by (auto simp: addContact_def Let_def removeContact_def split: option.splits prod.splits)

lemma addContact_effects:
  "snd (addContact s p m a b d) =
     (case jsGet (contacts m) (lru m) of
        None \<Rightarrow> [RequestContact]
      | Some old \<Rightarrow> [FreeCollisionData (data old), FreeContact old, RequestContact])"
  by (auto simp: addContact_def Let_def removeContact_def split: option.splits prod.splits)

lemma manifoldInv_addContact:
  assumes "manifoldInv m"
  shows "manifoldInv (fst (addContact s p m a b d))"
proof (cases "jsGet (contacts m) (lru m)")
  case None
  have "length (List.map_filter id (jsPut (contacts m) (lru m) (Some (Contact_reset s p a b d))))
          = length (List.map_filter id (contacts m)) + 1"
    using live_count_jsPut [of "contacts m" "lru m" "Some (Contact_reset s p a b d)"] None by simp
  then show ?thesis
    using assms None
    by (auto simp: manifoldInv_def addContact_def Let_def live_def length_jsPut)
next
  case (Some old)
  let ?m1 = "fst (removeContact m old (lru m))"
  have inv1: "manifoldInv ?m1" using assms Some by (rule manifoldInv_removeContact)
  have hole: "jsGet (contacts ?m1) (lru m) = None"
    by (simp add: removeContact_def jsGet_jsPut)
  have "length (List.map_filter id (jsPut (contacts ?m1) (lru m) (Some (Contact_reset s p a b d))))
          = length (List.map_filter id (contacts ?m1)) + 1"
    using live_count_jsPut [of "contacts ?m1" "lru m" "Some (Contact_reset s p a b d)"] hole by simp
  moreover have "addContact s p m a b d =
      (?m1\<lparr>contacts := jsPut (contacts ?m1) (lru m) (Some (Contact_reset s p a b d)),
            lru := (lru m + 1) mod 4, numContacts := numContacts ?m1 + 1\<rparr>,
       snd (removeContact m old (lru m)) @ [RequestContact])"
    using Some by (simp add: addContact_def Let_def split: prod.splits)
  ultimately show ?thesis
    using inv1 by (auto simp: manifoldInv_def live_def length_jsPut removeContact_fields)
qed

lemma findNear_Some:
  "findNear wA wB k cs = Some (i, c) \<Longrightarrow> k \<le> i \<and> jsGet cs (i - k) = Some c \<and> nearDuplicate wA wB c"
proof (induction cs arbitrary: k)
  case Nil
  then show ?case by simp
next
  case (Cons x cs)
  show ?case
  proof (cases x)
    case None
    with Cons.prems have "findNear wA wB (Suc k) cs = Some (i, c)" by simp
    from Cons.IH [OF this] show ?thesis
      by (auto simp: jsGet_def Suc_diff_le split: if_splits)
  next
    case (Some y)
    show ?thesis
    proof (cases "nearDuplicate wA wB y")
      case True
      with Some Cons.prems show ?thesis by (simp add: jsGet_def)
    next
      case False
      with Some Cons.prems have "findNear wA wB (Suc k) cs = Some (i, c)" by simp
      from Cons.IH [OF this] show ?thesis
        by (auto simp: jsGet_def Suc_diff_le split: if_splits)
    qed
  qed
qed

lemma manifoldInv_contains:
  assumes "manifoldInv m"
  shows "manifoldInv (fst (contains_m m d))"
proof (cases "findNear (worldContactA d) (worldContactB d) 0 (contacts m)")
  case None
  then show ?thesis using assms by (simp add: contains_m_def)
next
  case (Some ic)
  obtain i c where ic: "ic = (i, c)" by (cases ic)
  from Some ic findNear_Some [of "worldContactA d" "worldContactB d" 0 "contacts m" i c]
  have "jsGet (contacts m) i = Some c" by simp
  with assms have "manifoldInv (fst (removeContact m c i))" by (rule manifoldInv_removeContact)
  then show ?thesis using Some ic by (auto simp: contains_m_def split: prod.splits)
qed

lemma update_loop_inv:
  "manifoldInv m \<Longrightarrow> manifoldInv (fst (Manifold_update_loop posA posB is m))"
proof (induction "is" arbitrary: m)
  case Nil
  then show ?case by simp
next
  case (Cons i "is")
  show ?case
  proof (cases "jsGet (contacts m) i")
    case None
    then show ?thesis using Cons by simp
  next
    case (Some c)
    have "manifoldInv (fst (removeContact m c i))"
      using Cons.prems Some by (rule manifoldInv_removeContact)
    then show ?thesis using Cons Some by (simp add: Let_def)
  qed
qed

lemma update_loop_slots:
  "jsGet (contacts (fst (Manifold_update_loop posA posB is m))) j =
     (if j \<in> set is then swept posA posB (jsGet (contacts m) j) else jsGet (contacts m) j)"
proof (induction "is" arbitrary: m)
  case Nil
  then show ?case by simp
next
  case (Cons i "is")
  show ?case
  proof (cases "jsGet (contacts m) i")
    case None
    then show ?thesis using Cons.IH [of m] by (auto simp: swept_def)
  next
    case (Some c)
    show ?thesis
    proof (cases "stale posA posB c")
      case True
      then show ?thesis
        using Some Cons.IH [of "fst (removeContact m c i)"]
        by (auto simp: Let_def swept_def removeContact_fields jsGet_jsPut split: option.splits)
    next
      case False
      then show ?thesis
        using Some Cons.IH [of m] by (auto simp: swept_def)
    qed
  qed
qed

lemma update_loop_fields:
  "length (contacts (fst (Manifold_update_loop posA posB is m))) = length (contacts m) \<and>
   lru (fst (Manifold_update_loop posA posB is m)) = lru m \<and>
   lowID (fst (Manifold_update_loop posA posB is m)) = lowID m \<and>
   highID (fst (Manifold_update_loop posA posB is m)) = highID m \<and>
   mBodyA (fst (Manifold_update_loop posA posB is m)) = mBodyA m \<and>
   mBodyB (fst (Manifold_update_loop posA posB is m)) = mBodyB m"
proof (induction "is" arbitrary: m)
  case Nil
  then show ?case by simp
next
  case (Cons i "is")
  show ?case
  proof (cases "jsGet (contacts m) i")
    case None
    then show ?thesis using Cons.IH [of m] by simp
  next
    case (Some c)
    have "i < length (contacts m)" using Some by (rule jsGet_Some_less)
    then have "length (jsPut (contacts m) i None) = length (contacts m)"
      by (simp add: length_jsPut)
    then show ?thesis
      using Some Cons.IH [of m] Cons.IH [of "fst (removeContact m c i)"]
      by (simp add: Let_def removeContact_fields)
  qed
qed

lemma manifoldInv_update: "manifoldInv m \<Longrightarrow> manifoldInv (fst (Manifold_update s dt m))"
  by (simp add: Manifold_update_def Let_def update_loop_inv)

lemma Manifold_update_slots:
  "jsGet (contacts (fst (Manifold_update s dt m))) i =
     swept (position (s (mBodyA m))) (position (s (mBodyB m))) (jsGet (contacts m) i)"
proof (cases "i < length (contacts m)")
  case True
  then show ?thesis
    by (simp add: Manifold_update_def Let_def update_loop_slots)
next
  case False
  then show ?thesis
    by (simp add: Manifold_update_def Let_def update_loop_slots swept_def jsGet_beyond)
qed

lemma Manifold_update_fields:
  "lowID (fst (Manifold_update s dt m)) = lowID m \<and>
   highID (fst (Manifold_update s dt m)) = highID m \<and>
   mBodyA (fst (Manifold_update s dt m)) = mBodyA m \<and>
   mBodyB (fst (Manifold_update s dt m)) = mBodyB m \<and>
   lru (fst (Manifold_update s dt m)) = lru m"
  by (simp add: Manifold_update_def Let_def update_loop_fields)

lemma manifoldInv_step: "manifoldInv m \<Longrightarrow> manifoldInv (Manifold_step op m)"
  by (cases op) (simp_all add: manifoldInv_addContact manifoldInv_contains manifoldInv_update)

lemma manifoldInv_run: "manifoldInv m \<Longrightarrow> manifoldInv (Manifold_run ops m)"
  by (induction ops arbitrary: m) (simp_all add: manifoldInv_step)

lemma Contact_reset_data: "data (Contact_reset s p a b d) = d"
  by (simp add: Contact_reset_def Contact_init_def Let_def)

text \<open>
  Four contacts added in a row fill the four slots from the cursor on, and bring the
  cursor back to where it was.
\<close>

lemma four_adds_lru:
  assumes "lru m < 4"
  shows "lru (Manifold_run [AddContact s1 p1 a1 b1 d1, AddContact s2 p2 a2 b2 d2,
                            AddContact s3 p3 a3 b3 d3, AddContact s4 p4 a4 b4 d4] m) = lru m"
proof -
  from assms consider "lru m = 0" | "lru m = 1" | "lru m = 2" | "lru m = 3" by linarith
  then show ?thesis
    by cases (simp_all add: addContact_lru)
qed

lemma four_adds_slots:
  assumes "lru m < 4"
  shows "jsGet (contacts (Manifold_run [AddContact s1 p1 a1 b1 d1, AddContact s2 p2 a2 b2 d2,
                            AddContact s3 p3 a3 b3 d3, AddContact s4 p4 a4 b4 d4] m)) j =
           (if j = lru m then Some (Contact_reset s1 p1 a1 b1 d1)
            else if j = (lru m + 1) mod 4 then Some (Contact_reset s2 p2 a2 b2 d2)
            else if j = (lru m + 2) mod 4 then Some (Contact_reset s3 p3 a3 b3 d3)
            else if j = (lru m + 3) mod 4 then Some (Contact_reset s4 p4 a4 b4 d4)
            else jsGet (contacts m) j)"
proof -
  from assms consider "lru m = 0" | "lru m = 1" | "lru m = 2" | "lru m = 3" by linarith
  then show ?thesis
    by cases (simp_all add: addContact_lru addContact_slots)
qed

lemma five_adds_slots:
  assumes k: "lru m0 < 4" and len: "length (contacts m0) \<le> 4"
  shows "jsGet (contacts (fst (addContact s5 p5
             (Manifold_run [AddContact s1 p1 a1 b1 d1, AddContact s2 p2 a2 b2 d2,
                            AddContact s3 p3 a3 b3 d3, AddContact s4 p4 a4 b4 d4] m0) a5 b5 d5))) j =
           (if j = lru m0 then Some (Contact_reset s5 p5 a5 b5 d5)
            else if j = (lru m0 + 1) mod 4 then Some (Contact_reset s2 p2 a2 b2 d2)
            else if j = (lru m0 + 2) mod 4 then Some (Contact_reset s3 p3 a3 b3 d3)
            else if j = (lru m0 + 3) mod 4 then Some (Contact_reset s4 p4 a4 b4 d4)
            else None)"
proof -
  have out: "jsGet (contacts m0) j = None" if "j \<noteq> 0" "j \<noteq> 1" "j \<noteq> 2" "j \<noteq> 3"
  proof -
    from that have "4 \<le> j" by linarith
    with len show ?thesis by (simp add: jsGet_beyond)
  qed
  from k consider "lru m0 = 0" | "lru m0 = 1" | "lru m0 = 2" | "lru m0 = 3" by linarith
  then show ?thesis
  proof cases
    case 1
    show ?thesis
      unfolding addContact_slots four_adds_lru [OF k] four_adds_slots [OF k] 1
      using out by simp
  next
    case 2
    show ?thesis
      unfolding addContact_slots four_adds_lru [OF k] four_adds_slots [OF k] 2
      using out by simp
  next
    case 3
    show ?thesis
      unfolding addContact_slots four_adds_lru [OF k] four_adds_slots [OF k] 3
      using out by simp
  next
    case 4
    show ?thesis
      unfolding addContact_slots four_adds_lru [OF k] four_adds_slots [OF k] 4
      using out by simp
  qed
qed

lemma five_adds_live:
  assumes "manifoldInv m0"
  shows "set (live (fst (addContact s5 p5
             (Manifold_run [AddContact s1 p1 a1 b1 d1, AddContact s2 p2 a2 b2 d2,
                            AddContact s3 p3 a3 b3 d3, AddContact s4 p4 a4 b4 d4] m0) a5 b5 d5)))
        = {Contact_reset s2 p2 a2 b2 d2, Contact_reset s3 p3 a3 b3 d3,
           Contact_reset s4 p4 a4 b4 d4, Contact_reset s5 p5 a5 b5 d5}"
proof -
  from assms have k: "lru m0 < 4" and len: "length (contacts m0) \<le> 4"
    by (simp_all add: manifoldInv_def)
  note slots = five_adds_slots [OF k len]
  from k consider "lru m0 = 0" | "lru m0 = 1" | "lru m0 = 2" | "lru m0 = 3" by linarith
  then show ?thesis
  proof cases
    case 1
    show ?thesis unfolding set_live slots 1
      apply (simp only: set_eq_iff)
      apply (intro allI iffI)
       apply (auto split: if_splits)[1]
      apply simp
      apply (elim disjE)
         apply (rule exI [of _ 1], simp)
        apply (rule exI [of _ 2], simp)
       apply (rule exI [of _ 3], simp)
      apply (rule exI [of _ 0], simp)
      done
  next
    case 2
    show ?thesis unfolding set_live slots 2
      apply (simp only: set_eq_iff)
      apply (intro allI iffI)
       apply (auto split: if_splits)[1]
      apply simp
      apply (elim disjE)
         apply (rule exI [of _ 2], simp)
        apply (rule exI [of _ 3], simp)
       apply (rule exI [of _ 0], simp)
      apply (rule exI [of _ 1], simp)
      done
  next
    case 3
    show ?thesis unfolding set_live slots 3
      apply (simp only: set_eq_iff)
      apply (intro allI iffI)
       apply (auto split: if_splits)[1]
      apply simp
      apply (elim disjE)
         apply (rule exI [of _ 3], simp)
        apply (rule exI [of _ 0], simp)
       apply (rule exI [of _ 1], simp)
      apply (rule exI [of _ 2], simp)
      done
  next
    case 4
    show ?thesis unfolding set_live slots 4
      apply (simp only: set_eq_iff)
      apply (intro allI iffI)
       apply (auto split: if_splits)[1]
      apply simp
      apply (elim disjE)
         apply (rule exI [of _ 0], simp)
        apply (rule exI [of _ 1], simp)
       apply (rule exI [of _ 2], simp)
      apply (rule exI [of _ 3], simp)
      done
  qed
qed

lemma Manifold_run_append: "Manifold_run (xs @ ys) m = Manifold_run ys (Manifold_run xs m)"
  by (induction xs arbitrary: m) simp_all

lemma added_append: "added (xs @ ys) = added xs @ added ys"
  by (induction xs rule: added.induct) simp_all

lemma contains_slots:
  "jsGet (contacts (fst (contains_m m d))) j = Some c \<Longrightarrow> jsGet (contacts m) j = Some c"
  by (auto simp: contains_m_def removeContact_def jsGet_jsPut split: option.splits prod.splits if_splits)

lemma contains_lru: "lru (fst (contains_m m d)) = lru m"
  by (auto simp: contains_m_def removeContact_def split: option.splits prod.splits)

lemma update_slots_Some:
  "jsGet (contacts (fst (Manifold_update s dt m))) j = Some c \<Longrightarrow> jsGet (contacts m) j = Some c"
  unfolding Manifold_update_slots by (auto simp: swept_def split: option.splits if_splits)

text \<open>
  The ring: after a run with \<open>N\<close> additions the cursor is \<open>N mod 4\<close>, and a live slot \<open>j\<close>
  holds the latest addition whose number is \<open>j\<close> modulo 4, one of the last four.
\<close>

lemma ring:
  "lru (Manifold_run ops (Manifold_reset lo hi a b)) = length (added ops) mod 4 \<and>
   (\<forall>j c. jsGet (contacts (Manifold_run ops (Manifold_reset lo hi a b))) j = Some c \<longrightarrow>
      (\<exists>n. n < length (added ops) \<and> length (added ops) \<le> n + 4 \<and> n mod 4 = j \<and>
           c = added ops ! n))"
proof (induction ops rule: rev_induct)
  case Nil
  then show ?case by (simp add: Manifold_reset_def jsGet_def)
next
  case (snoc op ops)
  let ?m = "Manifold_run ops (Manifold_reset lo hi a b)"
  let ?N = "length (added ops)"
  from snoc have cur: "lru ?m = ?N mod 4"
    and old: "\<And>j c. jsGet (contacts ?m) j = Some c \<Longrightarrow>
      \<exists>n. n < ?N \<and> ?N \<le> n + 4 \<and> n mod 4 = j \<and> c = added ops ! n"
    by blast+
  show ?case
  proof (cases op)
    case (AddContact s p a' b' d)
    have N': "added (ops @ [op]) = added ops @ [Contact_reset s p a' b' d]"
      by (simp add: added_append AddContact)
    have run: "Manifold_run (ops @ [op]) (Manifold_reset lo hi a b) = fst (addContact s p ?m a' b' d)"
      by (simp add: Manifold_run_append AddContact)
    have c1: "lru (fst (addContact s p ?m a' b' d)) = Suc ?N mod 4"
      unfolding addContact_lru cur by (simp add: mod_Suc_eq)
    have c2: "\<exists>n. n < Suc ?N \<and> Suc ?N \<le> n + 4 \<and> n mod 4 = j \<and>
                  c = (added ops @ [Contact_reset s p a' b' d]) ! n"
      if g: "jsGet (contacts (fst (addContact s p ?m a' b' d))) j = Some c" for j c
    proof (cases "j = lru ?m")
      case True
      with g have "c = Contact_reset s p a' b' d" by (simp add: addContact_slots)
      with True cur show ?thesis
        by (intro exI [of _ ?N]) simp
    next
      case False
      with g have "jsGet (contacts ?m) j = Some c" by (simp add: addContact_slots)
      from old [OF this] obtain n where n: "n < ?N" "?N \<le> n + 4" "n mod 4 = j" "c = added ops ! n"
        by blast
      have "?N \<noteq> n + 4"
      proof
        assume "?N = n + 4"
        then have "?N mod 4 = n mod 4" by simp
        with n(3) False cur show False by simp
      qed
      with n(2) have "Suc ?N \<le> n + 4" by linarith
      with n show ?thesis
        by (intro exI [of _ n]) (simp add: nth_append)
    qed
    from c1 c2 show ?thesis unfolding run N' by simp
  next
    case (Contains d)
    have N': "added (ops @ [op]) = added ops" by (simp add: added_append Contains)
    have run: "Manifold_run (ops @ [op]) (Manifold_reset lo hi a b) = fst (contains_m ?m d)"
      by (simp add: Manifold_run_append Contains)
    show ?thesis unfolding run N'
      using cur old contains_slots [of ?m d] by (simp add: contains_lru)
  next
    case (Update s dt)
    have N': "added (ops @ [op]) = added ops" by (simp add: added_append Update)
    have run: "Manifold_run (ops @ [op]) (Manifold_reset lo hi a b) = fst (Manifold_update s dt ?m)"
      by (simp add: Manifold_run_append Update)
    show ?thesis unfolding run N'
      using cur old update_slots_Some [of s dt ?m] by (simp add: Manifold_update_fields)
  qed
qed

text \<open>The contact under the cursor, if there is one, is the fourth-last addition.\<close>

lemma cursor_oldest:
  assumes "jsGet (contacts (Manifold_run ops (Manifold_reset lo hi a b)))
                 (lru (Manifold_run ops (Manifold_reset lo hi a b))) = Some old"
  shows "4 \<le> length (added ops) \<and> old = added ops ! (length (added ops) - 4)"
proof -
  let ?m = "Manifold_run ops (Manifold_reset lo hi a b)"
  have cur: "lru ?m = length (added ops) mod 4"
    using ring [of ops lo hi a b] by (rule conjunct1)
  have "\<forall>j c. jsGet (contacts ?m) j = Some c \<longrightarrow>
      (\<exists>n. n < length (added ops) \<and> length (added ops) \<le> n + 4 \<and> n mod 4 = j \<and>
           c = added ops ! n)"
    using ring [of ops lo hi a b] by (rule conjunct2)
  with assms obtain n where n: "n < length (added ops)" "length (added ops) \<le> n + 4"
      "n mod 4 = lru ?m" "old = added ops ! n"
    by blast
  from n(3) cur have "n mod 4 = length (added ops) mod 4" by simp
  with n(1) mod_eq_dvd_iff_nat [of n "length (added ops)" 4]
  have "4 dvd length (added ops) - n" by simp
  moreover from n(1) have "0 < length (added ops) - n" by simp
  ultimately have "4 \<le> length (added ops) - n" by (rule dvd_imp_le)
  with n(2) have "n + 4 = length (added ops)" by linarith
  then have "n = length (added ops) - 4" and "4 \<le> length (added ops)" by simp_all
  with n(4) show ?thesis by simp
qed

lemma exManifold4_cursor: "jsGet (contacts exManifold4) (lru exManifold4) = Some (exContactN 1)"
proof -
  have k: "lru (Manifold_reset 1 2 0 1) < 4" by (simp add: Manifold_reset_def)
  show ?thesis
    unfolding exManifold4_def exAdd_def four_adds_lru [OF k] four_adds_slots [OF k]
    by (simp add: exContactN_def)
qed

text \<open>
  C5. A manifold never holds more than 4 live contacts: not after any run of
  \<^verbatim>\<open>addContact\<close>, \<^verbatim>\<open>contains\<close> and \<^verbatim>\<open>update\<close> calls on a manifold fresh from
  \<^verbatim>\<open>reset\<close>. \<^verbatim>\<open>addContact\<close> writes the new contact into the slot under the cursor and
  leaves the other slots alone, moves the cursor to \<open>(lru + 1) mod 4\<close>, and frees the
  contact that was in the slot (its collision data, then the contact) before it takes the
  new one from the pool. After a run with \<open>N\<close> additions, the contact under the cursor
  (the one the next \<^verbatim>\<open>addContact\<close> evicts) is the addition number \<open>N - 4\<close>, and every
  live contact is one of the last four additions: the evicted one is the oldest. So after
  four contacts added in a row, a fifth evicts the first of them, and the manifold holds
  the other three and the new one.
\<close>

theorem Manifold_capacity:
  "length (live (Manifold_run ops (Manifold_reset lo hi a b))) \<le> 4 \<and>
   jsGet (contacts (fst (addContact s p m a' b' d))) j =
     (if j = lru m then Some (Contact_reset s p a' b' d) else jsGet (contacts m) j) \<and>
   lru (fst (addContact s p m a' b' d)) = (lru m + 1) mod 4 \<and>
   snd (addContact s p m a' b' d) =
     (case jsGet (contacts m) (lru m) of
        None \<Rightarrow> [RequestContact]
      | Some old \<Rightarrow> [FreeCollisionData (data old), FreeContact old, RequestContact]) \<and>
   (\<forall>old. jsGet (contacts (Manifold_run ops (Manifold_reset lo hi a b)))
                (lru (Manifold_run ops (Manifold_reset lo hi a b))) = Some old \<longrightarrow>
      4 \<le> length (added ops) \<and> old = added ops ! (length (added ops) - 4)) \<and>
   (\<forall>i c. jsGet (contacts (Manifold_run ops (Manifold_reset lo hi a b))) i = Some c \<longrightarrow>
      (\<exists>n. n < length (added ops) \<and> length (added ops) \<le> n + 4 \<and> c = added ops ! n)) \<and>
   (manifoldInv m0 \<longrightarrow>
      snd (addContact s5 p5
             (Manifold_run [AddContact s1 p1 a1 b1 d1, AddContact s2 p2 a2 b2 d2,
                            AddContact s3 p3 a3 b3 d3, AddContact s4 p4 a4 b4 d4] m0) a5 b5 d5)
        = [FreeCollisionData d1, FreeContact (Contact_reset s1 p1 a1 b1 d1), RequestContact] \<and>
      set (live (fst (addContact s5 p5
             (Manifold_run [AddContact s1 p1 a1 b1 d1, AddContact s2 p2 a2 b2 d2,
                            AddContact s3 p3 a3 b3 d3, AddContact s4 p4 a4 b4 d4] m0) a5 b5 d5)))
        = {Contact_reset s2 p2 a2 b2 d2, Contact_reset s3 p3 a3 b3 d3,
           Contact_reset s4 p4 a4 b4 d4, Contact_reset s5 p5 a5 b5 d5})"
proof -
  have cap: "length (live (Manifold_run ops (Manifold_reset lo hi a b))) \<le> 4"
    by (rule live_le_4, rule manifoldInv_run, rule manifoldInv_reset)
  have eff: "snd (addContact s5 p5
             (Manifold_run [AddContact s1 p1 a1 b1 d1, AddContact s2 p2 a2 b2 d2,
                            AddContact s3 p3 a3 b3 d3, AddContact s4 p4 a4 b4 d4] m0) a5 b5 d5)
        = [FreeCollisionData d1, FreeContact (Contact_reset s1 p1 a1 b1 d1), RequestContact]"
    if inv: "manifoldInv m0"
  proof -
    from inv have k: "lru m0 < 4" by (simp add: manifoldInv_def)
    show ?thesis
      unfolding addContact_effects four_adds_lru [OF k] four_adds_slots [OF k]
      by (simp add: Contact_reset_data)
  qed
  have slot: "jsGet (contacts (fst (addContact s p m a' b' d))) j =
     (if j = lru m then Some (Contact_reset s p a' b' d) else jsGet (contacts m) j)"
    by (rule addContact_slots)
  have cursor: "lru (fst (addContact s p m a' b' d)) = (lru m + 1) mod 4"
    by (rule addContact_lru)
  have evict: "snd (addContact s p m a' b' d) =
     (case jsGet (contacts m) (lru m) of
        None \<Rightarrow> [RequestContact]
      | Some old \<Rightarrow> [FreeCollisionData (data old), FreeContact old, RequestContact])"
    by (rule addContact_effects)
  have oldest: "\<forall>old. jsGet (contacts (Manifold_run ops (Manifold_reset lo hi a b)))
                (lru (Manifold_run ops (Manifold_reset lo hi a b))) = Some old \<longrightarrow>
      4 \<le> length (added ops) \<and> old = added ops ! (length (added ops) - 4)"
    using cursor_oldest by blast
  have recent: "\<forall>i c. jsGet (contacts (Manifold_run ops (Manifold_reset lo hi a b))) i = Some c \<longrightarrow>
      (\<exists>n. n < length (added ops) \<and> length (added ops) \<le> n + 4 \<and> c = added ops ! n)"
    using ring [of ops lo hi a b] by blast
  have live5: "set (live (fst (addContact s5 p5
             (Manifold_run [AddContact s1 p1 a1 b1 d1, AddContact s2 p2 a2 b2 d2,
                            AddContact s3 p3 a3 b3 d3, AddContact s4 p4 a4 b4 d4] m0) a5 b5 d5)))
        = {Contact_reset s2 p2 a2 b2 d2, Contact_reset s3 p3 a3 b3 d3,
           Contact_reset s4 p4 a4 b4 d4, Contact_reset s5 p5 a5 b5 d5}"
    if "manifoldInv m0"
    using that by (rule five_adds_live)
  show ?thesis
    apply (intro conjI impI)
           apply (rule cap)
          apply (rule slot)
         apply (rule cursor)
        apply (rule evict)
       apply (rule oldest)
      apply (rule recent)
     apply (erule eff)
    apply (erule live5)
    done
qed

theorem Manifold_capacity_witness:
  "manifoldInv (Manifold_reset 1 2 0 1) \<and>
   jsGet (contacts exManifold4) (lru exManifold4) = Some (exContactN 1) \<and>
   exContactN 1 = added [exAdd 1, exAdd 2, exAdd 3, exAdd 4]
                    ! (length (added [exAdd 1, exAdd 2, exAdd 3, exAdd 4]) - 4) \<and>
   snd (addContact exStore exPooled exManifold4 0 1 (exDataN 5))
     = [FreeCollisionData (exDataN 1), FreeContact (exContactN 1), RequestContact] \<and>
   set (live (fst (addContact exStore exPooled exManifold4 0 1 (exDataN 5))))
     = {exContactN 2, exContactN 3, exContactN 4, exContactN 5} \<and>
   length (live (fst (addContact exStore exPooled exManifold4 0 1 (exDataN 5)))) \<le> 4"
proof -
  have h: "manifoldInv (Manifold_reset 1 2 0 1)" by (rule manifoldInv_reset)
  have run: "Manifold_run [exAdd 1, exAdd 2, exAdd 3, exAdd 4, exAdd 5] (Manifold_reset 1 2 0 1)
    = fst (addContact exStore exPooled exManifold4 0 1 (exDataN 5))"
    by (simp add: exManifold4_def exAdd_def)
  note T = Manifold_capacity [of "[exAdd 1, exAdd 2, exAdd 3, exAdd 4, exAdd 5]" 1 2 0 1
      exStore exPooled exManifold4 0 1 "exDataN 5" 0 "Manifold_reset 1 2 0 1"
      exStore exPooled
      exStore exPooled 0 1 "exDataN 1" exStore exPooled 0 1 "exDataN 2"
      exStore exPooled 0 1 "exDataN 3" exStore exPooled 0 1 "exDataN 4" 0 1 "exDataN 5"]
  note T4 = Manifold_capacity [of "[exAdd 1, exAdd 2, exAdd 3, exAdd 4]" 1 2 0 1
      exStore exPooled exManifold4 0 1 "exDataN 5" 0 "Manifold_reset 1 2 0 1"
      exStore exPooled
      exStore exPooled 0 1 "exDataN 1" exStore exPooled 0 1 "exDataN 2"
      exStore exPooled 0 1 "exDataN 3" exStore exPooled 0 1 "exDataN 4" 0 1 "exDataN 5"]
  from T4 have "\<forall>old. jsGet (contacts (Manifold_run [exAdd 1, exAdd 2, exAdd 3, exAdd 4]
                                 (Manifold_reset 1 2 0 1)))
                (lru (Manifold_run [exAdd 1, exAdd 2, exAdd 3, exAdd 4] (Manifold_reset 1 2 0 1)))
                  = Some old \<longrightarrow>
      4 \<le> length (added [exAdd 1, exAdd 2, exAdd 3, exAdd 4]) \<and>
      old = added [exAdd 1, exAdd 2, exAdd 3, exAdd 4]
              ! (length (added [exAdd 1, exAdd 2, exAdd 3, exAdd 4]) - 4)"
    by blast
  with exManifold4_cursor have c1: "exContactN 1 = added [exAdd 1, exAdd 2, exAdd 3, exAdd 4]
                    ! (length (added [exAdd 1, exAdd 2, exAdd 3, exAdd 4]) - 4)"
    unfolding exManifold4_def by blast
  from T have "length (live (Manifold_run [exAdd 1, exAdd 2, exAdd 3, exAdd 4, exAdd 5]
                 (Manifold_reset 1 2 0 1))) \<le> 4"
    by (rule conjunct1)
  then have c4: "length (live (fst (addContact exStore exPooled exManifold4 0 1 (exDataN 5)))) \<le> 4"
    by (simp only: run)
  from T h have
    "snd (addContact exStore exPooled
           (Manifold_run [AddContact exStore exPooled 0 1 (exDataN 1),
                          AddContact exStore exPooled 0 1 (exDataN 2),
                          AddContact exStore exPooled 0 1 (exDataN 3),
                          AddContact exStore exPooled 0 1 (exDataN 4)] (Manifold_reset 1 2 0 1))
           0 1 (exDataN 5))
       = [FreeCollisionData (exDataN 1), FreeContact (Contact_reset exStore exPooled 0 1 (exDataN 1)),
          RequestContact] \<and>
     set (live (fst (addContact exStore exPooled
           (Manifold_run [AddContact exStore exPooled 0 1 (exDataN 1),
                          AddContact exStore exPooled 0 1 (exDataN 2),
                          AddContact exStore exPooled 0 1 (exDataN 3),
                          AddContact exStore exPooled 0 1 (exDataN 4)] (Manifold_reset 1 2 0 1))
           0 1 (exDataN 5))))
       = {Contact_reset exStore exPooled 0 1 (exDataN 2), Contact_reset exStore exPooled 0 1 (exDataN 3),
          Contact_reset exStore exPooled 0 1 (exDataN 4), Contact_reset exStore exPooled 0 1 (exDataN 5)}"
    by blast
  then have c23: "snd (addContact exStore exPooled exManifold4 0 1 (exDataN 5))
     = [FreeCollisionData (exDataN 1), FreeContact (exContactN 1), RequestContact] \<and>
   set (live (fst (addContact exStore exPooled exManifold4 0 1 (exDataN 5))))
     = {exContactN 2, exContactN 3, exContactN 4, exContactN 5}"
    by (simp only: exManifold4_def exAdd_def exContactN_def)
  from h exManifold4_cursor c1 c23 c4 show ?thesis by blast
qed

lemma Manifold_update_persists:
  assumes "manifoldInv m"
  shows "snd (snd (Manifold_update s dt m)) \<longleftrightarrow> live (fst (Manifold_update s dt m)) \<noteq> []"
proof -
  have "manifoldInv (fst (Manifold_update s dt m))"
    using assms by (rule manifoldInv_update)
  then have "numContacts (fst (Manifold_update s dt m))
      = int (length (live (fst (Manifold_update s dt m))))"
    by (simp add: manifoldInv_def)
  moreover have "snd (snd (Manifold_update s dt m)) \<longleftrightarrow> numContacts (fst (Manifold_update s dt m)) \<noteq> 0"
    by (simp add: Manifold_update_def Let_def)
  ultimately show ?thesis by simp
qed

lemma stale_of_drift:
  "THRESHOLD < vlength (vsubtract (worldContactA (data c)) (vadd posA (localContactA (data c)))) \<or>
   THRESHOLD < vlength (vsubtract (worldContactB (data c)) (vadd posB (localContactB (data c)))) \<or>
   0 < vdot (vsubtract (vadd posB (localContactB (data c))) (vadd posA (localContactA (data c))))
            (normal (data c))
   \<Longrightarrow> stale posA posB c"
  by (auto simp: stale_def Let_def)

lemma exManifold1_val:
  "exManifold1 = \<lparr>lowID = 1, highID = 2, contacts = [Some (exContactN 1)], numContacts = 1,
                  mBodyA = 0, mBodyB = 1, lru = 1\<rparr>"
  by (simp add: exManifold1_def exAdd_def Manifold_reset_def addContact_def Let_def jsGet_def
      jsPut_def exContactN_def)

lemma sqrt_121: "(10::real) \<le> sqrt 121"
  by (rule real_le_rsqrt) simp

lemma exContact1_stale:
  "stale (position (exStoreMoved 0)) (position (exStoreMoved 1)) (exContactN 1)"
  unfolding stale_def exContactN_def Contact_reset_data
  using sqrt_121
  by (simp add: exStoreMoved_def exBodyA_def exBodyB_def exDataN_def exData_def vec_defs Let_def
      THRESHOLD_def)

text \<open>
  C8. \<^verbatim>\<open>Manifold.update(dt)\<close> on a manifold as the code builds them (cursor below 4, at
  most 4 slots, \<^verbatim>\<open>numContacts\<close> the number of live contacts). With each contact's world
  points recomputed as the manifold's body position plus the local contact point, a slot is emptied exactly when its contact's cached world
  point lies at least THRESHOLD from the recomputed one on bodyA's or on bodyB's side, or
  the separation of the recomputed points along the normal is positive; in particular
  every contact that has drifted beyond THRESHOLD or is no longer penetrating is removed.
  Every other slot is left as it is, and the result is true exactly when a live contact
  remains.
\<close>

theorem Manifold_update_drift:
  assumes "manifoldInv m"
  shows
  "length (contacts (fst (Manifold_update s dt m))) = length (contacts m) \<and>
   (\<forall>i. jsGet (contacts (fst (Manifold_update s dt m))) i =
      (case jsGet (contacts m) i of
         None \<Rightarrow> None
       | Some c \<Rightarrow>
           if stale (position (s (mBodyA m))) (position (s (mBodyB m))) c then None else Some c)) \<and>
   (\<forall>i c. jsGet (contacts m) i = Some c \<and>
      (THRESHOLD < vlength (vsubtract (worldContactA (data c))
                              (vadd (position (s (mBodyA m))) (localContactA (data c)))) \<or>
       THRESHOLD < vlength (vsubtract (worldContactB (data c))
                              (vadd (position (s (mBodyB m))) (localContactB (data c)))) \<or>
       0 < vdot (vsubtract (vadd (position (s (mBodyB m))) (localContactB (data c)))
                           (vadd (position (s (mBodyA m))) (localContactA (data c))))
                (normal (data c)))
      \<longrightarrow> jsGet (contacts (fst (Manifold_update s dt m))) i = None) \<and>
   (snd (snd (Manifold_update s dt m)) \<longleftrightarrow> live (fst (Manifold_update s dt m)) \<noteq> [])"
proof -
  have len: "length (contacts (fst (Manifold_update s dt m))) = length (contacts m)"
    by (simp add: Manifold_update_def Let_def update_loop_fields)
  have slots: "jsGet (contacts (fst (Manifold_update s dt m))) i =
      (case jsGet (contacts m) i of
         None \<Rightarrow> None
       | Some c \<Rightarrow>
           if stale (position (s (mBodyA m))) (position (s (mBodyB m))) c then None else Some c)" for i
    using Manifold_update_slots [of s dt m i] by (simp add: swept_def)
  have gone: "jsGet (contacts (fst (Manifold_update s dt m))) i = None"
    if "jsGet (contacts m) i = Some c"
      and "THRESHOLD < vlength (vsubtract (worldContactA (data c))
                              (vadd (position (s (mBodyA m))) (localContactA (data c)))) \<or>
       THRESHOLD < vlength (vsubtract (worldContactB (data c))
                              (vadd (position (s (mBodyB m))) (localContactB (data c)))) \<or>
       0 < vdot (vsubtract (vadd (position (s (mBodyB m))) (localContactB (data c)))
                           (vadd (position (s (mBodyA m))) (localContactA (data c))))
                (normal (data c))" for i c
  proof -
    from that(2) have "stale (position (s (mBodyA m))) (position (s (mBodyB m))) c"
      by (rule stale_of_drift)
    with that(1) show ?thesis by (simp add: slots)
  qed
  from len slots gone Manifold_update_persists [OF assms, of s dt] show ?thesis
    by blast
qed

theorem Manifold_update_drift_witness:
  "manifoldInv exManifold1 \<and>
   jsGet (contacts exManifold1) 0 = Some (exContactN 1) \<and>
   jsGet (contacts (fst (Manifold_update exStoreMoved 1 exManifold1))) 0 = None \<and>
   live (fst (Manifold_update exStoreMoved 1 exManifold1)) = [] \<and>
   \<not> snd (snd (Manifold_update exStoreMoved 1 exManifold1)) \<and>
   jsGet (contacts (fst (Manifold_update exStore 1 exManifold1))) 0 = Some (exContactN 1) \<and>
   snd (snd (Manifold_update exStore 1 exManifold1))"
proof -
  have h: "manifoldInv exManifold1"
    unfolding exManifold1_def by (rule manifoldInv_run, rule manifoldInv_reset)
  note T = Manifold_update_drift [OF h, of exStoreMoved 1]
  note U = Manifold_update_drift [OF h, of exStore 1]
  have bodies: "mBodyA exManifold1 = 0 \<and> mBodyB exManifold1 = 1"
    by (simp add: exManifold1_val)
  have slot0: "jsGet (contacts exManifold1) 0 = Some (exContactN 1)"
    by (simp add: exManifold1_val jsGet_def)
  have others: "jsGet (contacts exManifold1) i = None" if "i \<noteq> 0" for i
    using that by (simp add: exManifold1_val jsGet_def)
  have all_gone: "jsGet (contacts (fst (Manifold_update exStoreMoved 1 exManifold1))) i = None" for i
  proof (cases "i = 0")
    case True
    from T have "jsGet (contacts (fst (Manifold_update exStoreMoved 1 exManifold1))) 0 =
      (case jsGet (contacts exManifold1) 0 of
         None \<Rightarrow> None
       | Some c \<Rightarrow>
           if stale (position (exStoreMoved (mBodyA exManifold1)))
                    (position (exStoreMoved (mBodyB exManifold1))) c then None else Some c)"
      by blast
    then show ?thesis using True slot0 bodies exContact1_stale by simp
  next
    case False
    from T have "jsGet (contacts (fst (Manifold_update exStoreMoved 1 exManifold1))) i =
      (case jsGet (contacts exManifold1) i of
         None \<Rightarrow> None
       | Some c \<Rightarrow>
           if stale (position (exStoreMoved (mBodyA exManifold1)))
                    (position (exStoreMoved (mBodyB exManifold1))) c then None else Some c)"
      by blast
    then show ?thesis using others [OF False] by simp
  qed
  have "set (live (fst (Manifold_update exStoreMoved 1 exManifold1))) = {}"
    unfolding set_live by (simp add: all_gone)
  then have empty: "live (fst (Manifold_update exStoreMoved 1 exManifold1)) = []" by simp
  with T have gone: "\<not> snd (snd (Manifold_update exStoreMoved 1 exManifold1))" by blast
  have fresh: "\<not> stale (position (exStore 0)) (position (exStore 1)) (exContactN 1)"
    unfolding stale_def exContactN_def Contact_reset_data
    by (simp add: exStore_def exBodyA_def exBodyB_def exDataN_def exData_def vec_defs Let_def
        THRESHOLD_def)
  from U have "jsGet (contacts (fst (Manifold_update exStore 1 exManifold1))) 0 =
      (case jsGet (contacts exManifold1) 0 of
         None \<Rightarrow> None
       | Some c \<Rightarrow>
           if stale (position (exStore (mBodyA exManifold1)))
                    (position (exStore (mBodyB exManifold1))) c then None else Some c)"
    by blast
  then have kept: "jsGet (contacts (fst (Manifold_update exStore 1 exManifold1))) 0
      = Some (exContactN 1)"
    using slot0 bodies fresh by simp
  then have "exContactN 1 \<in> set (live (fst (Manifold_update exStore 1 exManifold1)))"
    unfolding set_live by blast
  then have "live (fst (Manifold_update exStore 1 exManifold1)) \<noteq> []" by auto
  with U have stays: "snd (snd (Manifold_update exStore 1 exManifold1))" by blast
  from h slot0 all_gone [of 0] empty gone kept stays show ?thesis by blast
qed

section \<open>Contact manifold table\<close>

lemma rowsPresent_iff:
  "rowsPresent t \<longleftrightarrow>
     (\<forall>i m. jsGet (manifolds t) i = Some m \<longrightarrow> collisionMatrix t (lowID m) \<noteq> None)"
proof
  assume r: "rowsPresent t"
  show "\<forall>i m. jsGet (manifolds t) i = Some m \<longrightarrow> collisionMatrix t (lowID m) \<noteq> None"
  proof (intro allI impI)
    fix i m assume g: "jsGet (manifolds t) i = Some m"
    then have i: "i < length (manifolds t)" by (rule jsGet_Some_less)
    with g have "manifolds t ! i = Some m" by (simp add: jsGet_def)
    with r i show "collisionMatrix t (lowID m) \<noteq> None"
      by (auto simp: rowsPresent_def list_all_length split: option.splits)
  qed
next
  assume a: "\<forall>i m. jsGet (manifolds t) i = Some m \<longrightarrow> collisionMatrix t (lowID m) \<noteq> None"
  show "rowsPresent t"
    unfolding rowsPresent_def list_all_length
  proof (intro allI impI)
    fix n assume n: "n < length (manifolds t)"
    show "case manifolds t ! n of None \<Rightarrow> True | Some m \<Rightarrow> collisionMatrix t (lowID m) \<noteq> None"
    proof (cases "manifolds t ! n")
      case None
      then show ?thesis by simp
    next
      case (Some m)
      with n have "jsGet (manifolds t) n = Some m" by (simp add: jsGet_def)
      with a have "collisionMatrix t (lowID m) \<noteq> None" by blast
      with Some show ?thesis by simp
    qed
  qed
qed

lemma endEventsOk_append:
  "endEventsOk before (xs @ ys) \<longleftrightarrow> endEventsOk before xs \<and> endEventsOk (before @ xs) ys"
  by (induction xs arbitrary: before) auto

lemma endEventsOk_quiet: "list_all quiet es \<Longrightarrow> endEventsOk before es"
proof (induction es arbitrary: before)
  case Nil
  then show ?case by simp
next
  case (Cons e es)
  then show ?case by (cases e) simp_all
qed

lemma removeContact_quiet: "list_all quiet (snd (removeContact m c i))"
  by (simp add: removeContact_def)

lemma update_loop_quiet: "list_all quiet (snd (Manifold_update_loop posA posB is m))"
proof (induction "is" arbitrary: m)
  case Nil
  then show ?case by simp
next
  case (Cons i "is")
  show ?case
  proof (cases "jsGet (contacts m) i")
    case None
    then show ?thesis using Cons.IH by simp
  next
    case (Some c)
    then show ?thesis
      using Cons.IH [of m] Cons.IH [of "fst (removeContact m c i)"]
      by (simp add: Let_def removeContact_quiet)
  qed
qed

lemma Manifold_update_quiet: "list_all quiet (fst (snd (Manifold_update s dt m)))"
  by (simp add: Manifold_update_def Let_def update_loop_quiet)

text \<open>
  The turn of the loop on a manifold that does not persist: what it returns, and the
  table the two events see.
\<close>

lemma Table_update_slot_removed:
  fixes i :: nat
  assumes row: "collisionMatrix t (lowID m) = Some row"
    and gone: "\<not> snd (snd (Manifold_update s dt m))"
  defines "m' \<equiv> fst (Manifold_update s dt m)"
  defines "t2 \<equiv> t\<lparr>manifolds := jsPut (jsPut (manifolds t) i (Some m')) i None,
                   collisionMatrix := (collisionMatrix t)(lowID m := Some (row(highID m := None))),
                   IDPool := IDPool t @ [i]\<rparr>"
  shows "Table_update_slot s dt i m t =
           Inr (t2, fst (snd (Manifold_update s dt m)) @
                    [FreeManifold m',
                     Trigger (mBodyA m) ''collision:end'' m' t2,
                     Trigger (mBodyB m) ''collision:end'' m' t2])"
  using row gone
  by (simp add: Table_update_slot_def Let_def removeManifold_def m'_def t2_def
      Manifold_update_fields)

lemma Table_update_slot_kept:
  assumes "snd (snd (Manifold_update s dt m))"
  shows "Table_update_slot s dt i m t =
           Inr (t\<lparr>manifolds := jsPut (manifolds t) i (Some (fst (Manifold_update s dt m)))\<rparr>,
                fst (snd (Manifold_update s dt m)))"
  using assms by (simp add: Table_update_slot_def Let_def)

lemma Table_update_slot_ok:
  assumes inv: "rowsPresent t" and live: "jsGet (manifolds t) i = Some m"
  shows "\<exists>t1 e1. Table_update_slot s dt i m t = Inr (t1, e1) \<and> rowsPresent t1 \<and>
                 endEventsOk before e1"
proof -
  let ?m' = "fst (Manifold_update s dt m)"
  let ?e = "fst (snd (Manifold_update s dt m))"
  from inv live obtain row where row: "collisionMatrix t (lowID m) = Some row"
    by (auto simp: rowsPresent_iff)
  have quiet: "endEventsOk before ?e"
    by (rule endEventsOk_quiet, rule Manifold_update_quiet)
  show ?thesis
  proof (cases "snd (snd (Manifold_update s dt m))")
    case True
    let ?t1 = "t\<lparr>manifolds := jsPut (manifolds t) i (Some ?m')\<rparr>"
    have "rowsPresent ?t1"
      unfolding rowsPresent_iff
    proof (intro allI impI)
      fix j mj assume "jsGet (manifolds ?t1) j = Some mj"
      then have "mj = ?m' \<or> jsGet (manifolds t) j = Some mj"
        by (auto simp: jsGet_jsPut split: if_splits)
      then show "collisionMatrix ?t1 (lowID mj) \<noteq> None"
        using inv row by (auto simp: rowsPresent_iff Manifold_update_fields)
    qed
    with Table_update_slot_kept [OF True, of i t] quiet show ?thesis by simp
  next
    case False
    let ?t2 = "t\<lparr>manifolds := jsPut (jsPut (manifolds t) i (Some ?m')) i None,
                 collisionMatrix := (collisionMatrix t)(lowID m := Some (row(highID m := None))),
                 IDPool := IDPool t @ [i]\<rparr>"
    have r2: "rowsPresent ?t2"
      unfolding rowsPresent_iff
    proof (intro allI impI)
      fix j mj assume "jsGet (manifolds ?t2) j = Some mj"
      then have "jsGet (manifolds t) j = Some mj"
        by (auto simp: jsGet_jsPut split: if_splits)
      then show "collisionMatrix ?t2 (lowID mj) \<noteq> None"
        using inv by (auto simp: rowsPresent_iff)
    qed
    have ev: "endEventsOk before
        (?e @ [FreeManifold ?m', Trigger (mBodyA m) ''collision:end'' ?m' ?t2,
               Trigger (mBodyB m) ''collision:end'' ?m' ?t2])"
      unfolding endEventsOk_append
      using quiet by (simp add: lookupSlot_def Manifold_update_fields jsGet_jsPut)
    from Table_update_slot_removed [OF row False, of i] r2 ev show ?thesis by simp
  qed
qed

lemma Table_update_loop_ok:
  "rowsPresent t \<Longrightarrow>
     \<exists>t' es. Table_update_loop s dt is t = Inr (t', es) \<and> rowsPresent t' \<and> endEventsOk before es"
proof (induction "is" arbitrary: t before)
  case Nil
  then show ?case by simp
next
  case (Cons i "is")
  show ?case
  proof (cases "jsGet (manifolds t) i")
    case None
    then show ?thesis using Cons.IH [OF Cons.prems] by simp
  next
    case (Some m)
    from Table_update_slot_ok [OF Cons.prems Some, of s dt before]
    obtain t1 e1 where slot: "Table_update_slot s dt i m t = Inr (t1, e1)"
      and r1: "rowsPresent t1" and ok1: "endEventsOk before e1" by blast
    from Cons.IH [OF r1, of "before @ e1"]
    obtain t2 e2 where rest: "Table_update_loop s dt is t1 = Inr (t2, e2)"
      and r2: "rowsPresent t2" and ok2: "endEventsOk (before @ e1) e2" by blast
    from Some slot rest r2 ok1 ok2 show ?thesis
      by (simp add: endEventsOk_append)
  qed
qed

lemma exManifold1_inv: "manifoldInv exManifold1"
  unfolding exManifold1_def by (rule manifoldInv_run, rule manifoldInv_reset)

lemma exManifold1_gone: "\<not> snd (snd (Manifold_update exStoreMoved 1 exManifold1))"
proof -
  have "jsGet (contacts (fst (Manifold_update exStoreMoved 1 exManifold1))) i = None" for i
    unfolding Manifold_update_slots
    using exContact1_stale
    by (cases "i = 0") (simp_all add: exManifold1_val jsGet_def swept_def)
  then have "set (live (fst (Manifold_update exStoreMoved 1 exManifold1))) = {}"
    unfolding set_live by simp
  then have "live (fst (Manifold_update exStoreMoved 1 exManifold1)) = []" by simp
  with Manifold_update_persists [OF exManifold1_inv, of exStoreMoved 1] show ?thesis by simp
qed

lemma exTable_rows: "rowsPresent exTable"
  by (simp add: rowsPresent_def exTable_def exManifold1_val)

text \<open>
  C10. \<^verbatim>\<open>ContactManifoldTable.update\<close> on a table in which every live manifold has its
  matrix row: the call returns, and every event in its effects is a \<^verbatim>\<open>collision:end\<close>
  whose payload has been freed to the pool earlier in the effects and which sees a table
  with the pair's matrix entry cleared and \<^verbatim>\<open>null\<close> in the slot pushed last on the free
  list. For the manifold of slot \<open>i\<close>, when its \<^verbatim>\<open>update\<close> reports non-persistence: the
  turn's effects are those of the manifold's update, then the manifold freed, then the
  event on bodyA and the event on bodyB, both with the freed manifold as payload and
  both seeing the table with slot \<open>i\<close> nulled, the matrix entry cleared and \<open>i\<close> pushed
  on the free list.
\<close>

theorem Table_update_end_after_removal:
  assumes "rowsPresent t"
  shows
  "(\<exists>t' es. Table_update s dt t = Inr (t', es) \<and> endEventsOk [] es) \<and>
   (jsGet (manifolds t) i = Some m \<and> \<not> snd (snd (Manifold_update s dt m)) \<longrightarrow>
      (\<exists>t2. Table_update_slot s dt i m t =
               Inr (t2, fst (snd (Manifold_update s dt m)) @
                        [FreeManifold (fst (Manifold_update s dt m)),
                         Trigger (mBodyA m) ''collision:end'' (fst (Manifold_update s dt m)) t2,
                         Trigger (mBodyB m) ''collision:end'' (fst (Manifold_update s dt m)) t2]) \<and>
             jsGet (manifolds t2) i = None \<and>
             lookupSlot t2 (lowID m, highID m) = None \<and>
             IDPool t2 = IDPool t @ [i]))"
proof -
  have whole: "\<exists>t' es. Table_update s dt t = Inr (t', es) \<and> endEventsOk [] es"
    using Table_update_loop_ok [OF assms, of s dt "[0 ..< length (manifolds t)]" "[]"]
    unfolding Table_update_def by blast
  have turn: "\<exists>t2. Table_update_slot s dt i m t =
               Inr (t2, fst (snd (Manifold_update s dt m)) @
                        [FreeManifold (fst (Manifold_update s dt m)),
                         Trigger (mBodyA m) ''collision:end'' (fst (Manifold_update s dt m)) t2,
                         Trigger (mBodyB m) ''collision:end'' (fst (Manifold_update s dt m)) t2]) \<and>
             jsGet (manifolds t2) i = None \<and>
             lookupSlot t2 (lowID m, highID m) = None \<and>
             IDPool t2 = IDPool t @ [i]"
    if live: "jsGet (manifolds t) i = Some m" and gone: "\<not> snd (snd (Manifold_update s dt m))"
  proof -
    from assms live obtain row where row: "collisionMatrix t (lowID m) = Some row"
      by (auto simp: rowsPresent_iff)
    let ?t2 = "t\<lparr>manifolds := jsPut (jsPut (manifolds t) i (Some (fst (Manifold_update s dt m)))) i None,
                 collisionMatrix := (collisionMatrix t)(lowID m := Some (row(highID m := None))),
                 IDPool := IDPool t @ [i]\<rparr>"
    have "jsGet (manifolds ?t2) i = None \<and> lookupSlot ?t2 (lowID m, highID m) = None \<and>
          IDPool ?t2 = IDPool t @ [i]"
      by (simp add: jsGet_jsPut lookupSlot_def)
    with Table_update_slot_removed [OF row gone, of i] show ?thesis by blast
  qed
  from whole turn show ?thesis by blast
qed

theorem Table_update_end_after_removal_witness:
  "rowsPresent exTable \<and>
   jsGet (manifolds exTable) 0 = Some exManifold1 \<and>
   \<not> snd (snd (Manifold_update exStoreMoved 1 exManifold1)) \<and>
   (\<exists>t' es. Table_update exStoreMoved 1 exTable = Inr (t', es) \<and> endEventsOk [] es) \<and>
   (\<exists>t2. Table_update_slot exStoreMoved 1 0 exManifold1 exTable =
            Inr (t2, fst (snd (Manifold_update exStoreMoved 1 exManifold1)) @
                     [FreeManifold (fst (Manifold_update exStoreMoved 1 exManifold1)),
                      Trigger 0 ''collision:end'' (fst (Manifold_update exStoreMoved 1 exManifold1)) t2,
                      Trigger 1 ''collision:end'' (fst (Manifold_update exStoreMoved 1 exManifold1)) t2]) \<and>
          jsGet (manifolds t2) 0 = None \<and>
          lookupSlot t2 (1, 2) = None \<and>
          IDPool t2 = [0])"
proof -
  have live: "jsGet (manifolds exTable) 0 = Some exManifold1"
    by (simp add: exTable_def jsGet_def)
  have f: "mBodyA exManifold1 = 0 \<and> mBodyB exManifold1 = 1 \<and> lowID exManifold1 = 1 \<and>
           highID exManifold1 = 2 \<and> IDPool exTable = []"
    by (simp add: exManifold1_val exTable_def)
  from Table_update_end_after_removal [OF exTable_rows, of exStoreMoved 1 0 exManifold1]
    live exManifold1_gone exTable_rows f
  show ?thesis by simp
qed

lemma pairKey_min_max:
  "pairKey s a b = (min (ID (s a)) (ID (s b)), max (ID (s a)) (ID (s b)))"
  by (auto simp: pairKey_def min_def max_def)

lemma pairKey_commute: "pairKey s b a = pairKey s a b"
  by (simp add: pairKey_min_max min.commute max.commute)

lemma contains_quiet: "list_all quiet (fst (snd (contains_m m d)))"
  by (auto simp: contains_m_def removeContact_def split: option.splits prod.splits)

lemma addContact_quiet: "list_all quiet (snd (addContact s p m a b d))"
  by (simp add: addContact_effects split: option.splits)

text \<open>Registering a contact for a pair that has a live manifold in slot \<open>idx\<close>.\<close>

lemma registerContact_present:
  assumes "lookupSlot t (pairKey s a b) = Some idx" and "jsGet (manifolds t) idx = Some m"
  shows "registerContact s p t a b d =
           Inr (t\<lparr>manifolds := (manifolds t)[idx := Some (fst (addContact s p (fst (contains_m m d)) a b d))]\<rparr>,
                fst (snd (contains_m m d)) @ snd (addContact s p (fst (contains_m m d)) a b d))"
proof -
  have "idx < length (manifolds t)" using assms(2) by (rule jsGet_Some_less)
  then show ?thesis
    using assms by (simp add: registerContact_def Let_def jsPut_def)
qed

text \<open>Registering a contact for a pair the matrix has no entry for.\<close>

lemma registerContact_absent:
  assumes "lookupSlot t (pairKey s a b) = None"
  shows "\<exists>t1 m1 idx.
           registerContact s p t a b d =
             Inr (t1, [RequestManifold, RequestContact,
                       Trigger a ''collision:start'' m1 t1, Trigger b ''collision:start'' m1 t1]) \<and>
           lookupSlot t1 (pairKey s a b) = Some idx \<and>
           jsGet (manifolds t1) idx = Some m1 \<and>
           idx = (if IDPool t \<noteq> [] then last (IDPool t) else length (manifolds t)) \<and>
           lowID m1 = fst (pairKey s a b) \<and> highID m1 = snd (pairKey s a b) \<and>
           live m1 = [Contact_reset s p a b d]"
  using assms
  by (simp add: registerContact_def Let_def addManifold_def lookupSlot_def jsGet_jsPut
      addContact_def Manifold_reset_def jsGet_def live_def List.map_filter_simps jsPut_def)

lemma registerContact_present_frame:
  assumes "lookupSlot t (pairKey s a b) = Some idx" and "jsGet (manifolds t) idx = Some m"
  shows "\<exists>t' es. registerContact s p t a b d = Inr (t', es) \<and>
           collisionMatrix t' = collisionMatrix t \<and> IDPool t' = IDPool t \<and>
           length (manifolds t') = length (manifolds t) \<and>
           manifolds t' =
             (manifolds t)[idx := Some (fst (addContact s p (fst (contains_m m d)) a b d))] \<and>
           list_all quiet es"
  using registerContact_present [OF assms, of p d]
  by (simp add: contains_quiet addContact_quiet)

lemma exTable_lookup: "lookupSlot exTable (pairKey exStore 0 1) = Some 0"
  by (simp add: lookupSlot_def exTable_def pairKey_def exStore_def exBodyA_def exBodyB_def)

lemma emptyTable_lookup: "lookupSlot emptyTable (pairKey exStore 0 1) = None"
  by (simp add: lookupSlot_def emptyTable_def)

text \<open>The table \<open>exTable\<close> is what the first registration makes of the empty table.\<close>

lemma exTable_registered:
  "\<exists>es. registerContact exStore exPooled emptyTable 0 1 (exDataN 1) = Inr (exTable, es)"
  by (simp add: registerContact_def Let_def addManifold_def lookupSlot_def emptyTable_def
      pairKey_def exStore_def exBodyA_def exBodyB_def exTable_def exManifold1_val
      addContact_def Manifold_reset_def jsGet_def jsPut_def exContactN_def)

text \<open>
  C6. \<^verbatim>\<open>registerContact\<close> keys a pair by \<open>(min idA idB, max idA idB)\<close>, so both orders
  of the two bodies look up the same matrix entry. When that entry names a slot with a
  live manifold, a registration in either order returns with the matrix, the free list
  and the number of slots unchanged, writes only that slot (the manifold after
  \<^verbatim>\<open>contains\<close> and \<^verbatim>\<open>addContact\<close>), takes no manifold from the pool and triggers no
  event. When the pair has no entry, the registration takes a manifold from the pool,
  enters the slot under the pair's key, triggers \<^verbatim>\<open>collision:start\<close> on both bodies, and a
  following registration of the pair in the other order finds that same slot, allocates
  nothing and triggers nothing.
\<close>

theorem registerContact_canonical:
  "pairKey s a b = (min (ID (s a)) (ID (s b)), max (ID (s a)) (ID (s b))) \<and>
   pairKey s b a = pairKey s a b \<and>
   (lookupSlot t (pairKey s a b) = Some idx \<and> jsGet (manifolds t) idx = Some m \<longrightarrow>
      (\<exists>t' es. registerContact s p t a b d = Inr (t', es) \<and>
         collisionMatrix t' = collisionMatrix t \<and> IDPool t' = IDPool t \<and>
         length (manifolds t') = length (manifolds t) \<and>
         manifolds t' =
           (manifolds t)[idx := Some (fst (addContact s p (fst (contains_m m d)) a b d))] \<and>
         list_all quiet es) \<and>
      (\<exists>t' es. registerContact s p t b a d = Inr (t', es) \<and>
         collisionMatrix t' = collisionMatrix t \<and> IDPool t' = IDPool t \<and>
         length (manifolds t') = length (manifolds t) \<and>
         manifolds t' =
           (manifolds t)[idx := Some (fst (addContact s p (fst (contains_m m d)) b a d))] \<and>
         list_all quiet es)) \<and>
   (lookupSlot t0 (pairKey s a b) = None \<longrightarrow>
      (\<exists>t1 m1 idx1.
         registerContact s p t0 a b d =
           Inr (t1, [RequestManifold, RequestContact,
                     Trigger a ''collision:start'' m1 t1, Trigger b ''collision:start'' m1 t1]) \<and>
         lookupSlot t1 (pairKey s a b) = Some idx1 \<and>
         lookupSlot t1 (pairKey s b a) = Some idx1 \<and>
         jsGet (manifolds t1) idx1 = Some m1 \<and>
         (\<exists>t2 es2. registerContact s p' t1 b a d' = Inr (t2, es2) \<and>
            lookupSlot t2 (pairKey s b a) = Some idx1 \<and>
            length (manifolds t2) = length (manifolds t1) \<and>
            IDPool t2 = IDPool t1 \<and>
            list_all quiet es2)))"
proof -
  have present: "(\<exists>t' es. registerContact s p t a b d = Inr (t', es) \<and>
         collisionMatrix t' = collisionMatrix t \<and> IDPool t' = IDPool t \<and>
         length (manifolds t') = length (manifolds t) \<and>
         manifolds t' =
           (manifolds t)[idx := Some (fst (addContact s p (fst (contains_m m d)) a b d))] \<and>
         list_all quiet es) \<and>
      (\<exists>t' es. registerContact s p t b a d = Inr (t', es) \<and>
         collisionMatrix t' = collisionMatrix t \<and> IDPool t' = IDPool t \<and>
         length (manifolds t') = length (manifolds t) \<and>
         manifolds t' =
           (manifolds t)[idx := Some (fst (addContact s p (fst (contains_m m d)) b a d))] \<and>
         list_all quiet es)"
    if h: "lookupSlot t (pairKey s a b) = Some idx" "jsGet (manifolds t) idx = Some m"
  proof -
    from h(1) have h': "lookupSlot t (pairKey s b a) = Some idx"
      by (simp add: pairKey_commute)
    from registerContact_present_frame [OF h, of p d]
         registerContact_present_frame [OF h' h(2), of p d]
    show ?thesis by blast
  qed
  have absent: "\<exists>t1 m1 idx1.
         registerContact s p t0 a b d =
           Inr (t1, [RequestManifold, RequestContact,
                     Trigger a ''collision:start'' m1 t1, Trigger b ''collision:start'' m1 t1]) \<and>
         lookupSlot t1 (pairKey s a b) = Some idx1 \<and>
         lookupSlot t1 (pairKey s b a) = Some idx1 \<and>
         jsGet (manifolds t1) idx1 = Some m1 \<and>
         (\<exists>t2 es2. registerContact s p' t1 b a d' = Inr (t2, es2) \<and>
            lookupSlot t2 (pairKey s b a) = Some idx1 \<and>
            length (manifolds t2) = length (manifolds t1) \<and>
            IDPool t2 = IDPool t1 \<and>
            list_all quiet es2)"
    if h0: "lookupSlot t0 (pairKey s a b) = None"
  proof -
    from registerContact_absent [OF h0, of p d]
    obtain t1 m1 idx1 where first:
      "registerContact s p t0 a b d =
         Inr (t1, [RequestManifold, RequestContact,
                   Trigger a ''collision:start'' m1 t1, Trigger b ''collision:start'' m1 t1])"
      and slot: "lookupSlot t1 (pairKey s a b) = Some idx1"
      and live: "jsGet (manifolds t1) idx1 = Some m1"
      by blast
    from slot have slot': "lookupSlot t1 (pairKey s b a) = Some idx1"
      by (simp add: pairKey_commute)
    from registerContact_present_frame [OF slot' live, of p' d']
    obtain t2 es2 where second: "registerContact s p' t1 b a d' = Inr (t2, es2)"
      and same: "collisionMatrix t2 = collisionMatrix t1"
      and pool: "IDPool t2 = IDPool t1"
      and len: "length (manifolds t2) = length (manifolds t1)"
      and q: "list_all quiet es2"
      by blast
    from same slot' have "lookupSlot t2 (pairKey s b a) = Some idx1"
      by (simp add: lookupSlot_def)
    with first slot slot' live second pool len q show ?thesis by blast
  qed
  from pairKey_min_max [of s a b] pairKey_commute [of s b a] present absent
  show ?thesis by blast
qed

theorem registerContact_canonical_witness:
  "lookupSlot exTable (pairKey exStore 0 1) = Some 0 \<and>
   jsGet (manifolds exTable) 0 = Some exManifold1 \<and>
   lookupSlot emptyTable (pairKey exStore 0 1) = None \<and>
   pairKey exStore 1 0 = pairKey exStore 0 1 \<and>
   (\<exists>t' es. registerContact exStore exPooled exTable 1 0 (exDataN 2) = Inr (t', es) \<and>
      collisionMatrix t' = collisionMatrix exTable \<and> IDPool t' = IDPool exTable \<and>
      length (manifolds t') = length (manifolds exTable) \<and>
      list_all quiet es) \<and>
   (\<exists>t1 m1.
      registerContact exStore exPooled emptyTable 0 1 (exDataN 1) =
        Inr (t1, [RequestManifold, RequestContact,
                  Trigger 0 ''collision:start'' m1 t1, Trigger 1 ''collision:start'' m1 t1]) \<and>
      (\<exists>t2 es2. registerContact exStore exPooled t1 1 0 (exDataN 2) = Inr (t2, es2) \<and>
         length (manifolds t2) = length (manifolds t1) \<and> list_all quiet es2))"
proof -
  have live: "jsGet (manifolds exTable) 0 = Some exManifold1"
    by (simp add: exTable_def jsGet_def)
  from registerContact_canonical [of exStore 0 1 exTable 0 exManifold1 exPooled "exDataN 2"
      emptyTable exPooled "exDataN 2"]
  have a: "\<exists>t' es. registerContact exStore exPooled exTable 1 0 (exDataN 2) = Inr (t', es) \<and>
      collisionMatrix t' = collisionMatrix exTable \<and> IDPool t' = IDPool exTable \<and>
      length (manifolds t') = length (manifolds exTable) \<and>
      list_all quiet es"
    and c: "pairKey exStore 1 0 = pairKey exStore 0 1"
    using exTable_lookup live by blast+
  from registerContact_canonical [of exStore 0 1 exTable 0 exManifold1 exPooled "exDataN 1"
      emptyTable exPooled "exDataN 2"]
  have b: "\<exists>t1 m1.
      registerContact exStore exPooled emptyTable 0 1 (exDataN 1) =
        Inr (t1, [RequestManifold, RequestContact,
                  Trigger 0 ''collision:start'' m1 t1, Trigger 1 ''collision:start'' m1 t1]) \<and>
      (\<exists>t2 es2. registerContact exStore exPooled t1 1 0 (exDataN 2) = Inr (t2, es2) \<and>
         length (manifolds t2) = length (manifolds t1) \<and> list_all quiet es2)"
    using emptyTable_lookup by blast
  from exTable_lookup live emptyTable_lookup a b c show ?thesis by blast
qed

text \<open>
  The hypothesis of the result on \<^verbatim>\<open>update\<close> holds of every table the code builds: of the
  empty table, and after every registration that returns.
\<close>

lemma rowsPresent_empty: "rowsPresent emptyTable"
  by (simp add: rowsPresent_def emptyTable_def)

lemma contains_fields: "lowID (fst (contains_m m d)) = lowID m \<and> highID (fst (contains_m m d)) = highID m"
  by (auto simp: contains_m_def removeContact_def split: option.splits prod.splits)

lemma addContact_fields:
  "lowID (fst (addContact s p m a b d)) = lowID m \<and> highID (fst (addContact s p m a b d)) = highID m"
  by (auto simp: addContact_def Let_def removeContact_def split: option.splits prod.splits)

text \<open>Registering a contact keeps every live manifold's matrix row in place.\<close>

lemma rowsPresent_registerContact:
  assumes "rowsPresent t" and "registerContact s p t a b d = Inr (t', es)"
  shows "rowsPresent t'"
proof (cases "lookupSlot t (pairKey s a b)")
  case None
  let ?lo = "fst (pairKey s a b)"
  let ?hi = "snd (pairKey s a b)"
  let ?idx = "if IDPool t \<noteq> [] then last (IDPool t) else length (manifolds t)"
  let ?row = "case collisionMatrix t ?lo of None \<Rightarrow> Map.empty | Some r \<Rightarrow> r"
  let ?m1 = "fst (addContact s p (Manifold_reset ?lo ?hi a b) a b d)"
  from None assms(2) have t': "t' = t\<lparr>manifolds := jsPut (jsPut (manifolds t) ?idx
                                          (Some (Manifold_reset ?lo ?hi a b))) ?idx (Some ?m1),
                    collisionMatrix := (collisionMatrix t)(?lo := Some (?row(?hi := Some ?idx))),
                    IDPool := (if IDPool t \<noteq> [] then butlast (IDPool t) else IDPool t)\<rparr>"
    by (auto simp: registerContact_def Let_def addManifold_def)
  show ?thesis
    unfolding rowsPresent_iff
  proof (intro allI impI)
    fix j mj assume "jsGet (manifolds t') j = Some mj"
    then have "mj = ?m1 \<or> jsGet (manifolds t) j = Some mj"
      unfolding t' by (auto simp: jsGet_jsPut split: if_splits)
    then show "collisionMatrix t' (lowID mj) \<noteq> None"
    proof
      assume "mj = ?m1"
      then have "lowID mj = ?lo" by (simp add: addContact_fields Manifold_reset_def)
      then show ?thesis unfolding t' by simp
    next
      assume "jsGet (manifolds t) j = Some mj"
      with assms(1) have "collisionMatrix t (lowID mj) \<noteq> None" by (simp add: rowsPresent_iff)
      then show ?thesis unfolding t' by simp
    qed
  qed
next
  case (Some idx)
  show ?thesis
  proof (cases "jsGet (manifolds t) idx")
    case None
    with Some assms(2) show ?thesis by (simp add: registerContact_def Let_def)
  next
    case live: (Some m)
    let ?m2 = "fst (addContact s p (fst (contains_m m d)) a b d)"
    from registerContact_present [OF Some live, of p d] assms(2)
    have t': "t' = t\<lparr>manifolds := (manifolds t)[idx := Some ?m2]\<rparr>" by auto
    have low: "lowID ?m2 = lowID m" by (simp add: addContact_fields contains_fields)
    have idx: "idx < length (manifolds t)" using live by (rule jsGet_Some_less)
    show ?thesis
      unfolding rowsPresent_iff
    proof (intro allI impI)
      fix j mj assume "jsGet (manifolds t') j = Some mj"
      then have "mj = ?m2 \<or> jsGet (manifolds t) j = Some mj"
        unfolding t' using idx by (auto simp: jsGet_def nth_list_update split: if_splits)
      then show "collisionMatrix t' (lowID mj) \<noteq> None"
        using assms(1) live low unfolding t' by (auto simp: rowsPresent_iff)
    qed
  qed
qed

end
